theory Spec2Isabelle
  imports Main "HOL-Library.Char_ord" "HOL-Library.List_Lexorder" "HOL-Library.Sublist"
begin

section \<open>File-system model\<close>

text \<open>
  The script \<^verbatim>\<open>scripts/claude-bridge.py\<close> works on three directory trees below the
  user's home: the marketplace (read only), the bridge-plugins directory and the global
  workflows directory (both written).  A directory is an association list from entry
  names to nodes, in the order in which the operating system enumerates it
  (\<^verbatim>\<open>iterdir\<close>, \<^verbatim>\<open>glob\<close>).  A symbolic link or a junction carries its target path
  and the node its target currently is (\<open>None\<close> for a dangling link).  \<open>Special\<close> is an
  entry that is neither file, directory nor link (a FIFO, a socket, a device).

  Where the source holds a \<^verbatim>\<open>Path\<close>, the model holds the path, what the path names
  (a \<open>node option\<close>), or both.  The three trees are disjoint: no link makes one of them
  an alias of a part of another, so a write to a destination never changes what the scan
  reads.  The marketplace tree lists an entry that the script reaches by a fixed name
  (\<^verbatim>\<open>plugins\<close>, \<^verbatim>\<open>commands\<close>, the indicator names) under that name; \<^verbatim>\<open>sorted\<close> and
  \<^verbatim>\<open>glob\<close> compare names as \<^verbatim>\<open>pathlib\<close> does on POSIX.
\<close>

type_synonym path = "string list"

datatype node =
    File
  | Dir "(string \<times> node) list"
  | Symlink path "node option"
  | Junction path "node option"
  | Special

type_synonym listing = "(string \<times> node) list"

text \<open>
  What one of the three root paths is: \<open>Absent\<close> (nothing there, \<^verbatim>\<open>mkdir\<close> can create
  it), \<open>DanglingLink\<close> (a link whose target is missing: \<^verbatim>\<open>exists\<close> is false and
  \<^verbatim>\<open>mkdir\<close> finds the name taken), \<open>BelowNonDirectory\<close> (a path through something that
  is no directory), \<open>NonDirectory\<close> (it exists and is not a directory), or a directory
  with its listing (reached directly or through links).
\<close>

datatype root = Absent | DanglingLink | BelowNonDirectory | NonDirectory | Directory listing

datatype error =
    FileExistsError
  | FileNotFoundError
  | NotADirectoryError
  | IsADirectoryError
  | DirectoryNotEmpty
  | CalledProcessError
  | PermissionError
  | NameTooLong

fun deref :: "node \<Rightarrow> node option" where
  "deref File = Some File"
| "deref (Dir es) = Some (Dir es)"
| "deref (Symlink p t) = (case t of None \<Rightarrow> None | Some n \<Rightarrow> deref n)"
| "deref (Junction p t) = (case t of None \<Rightarrow> None | Some n \<Rightarrow> deref n)"
| "deref Special = Some Special"

text \<open>\<^verbatim>\<open>Path.exists\<close>, \<^verbatim>\<open>is_dir\<close>, \<^verbatim>\<open>is_file\<close> follow links; \<^verbatim>\<open>is_symlink\<close> does not,
  and is false for a junction.  The argument is what the path names, if anything.\<close>

definition exists_path :: "node option \<Rightarrow> bool" where
  "exists_path p = (case p of None \<Rightarrow> False | Some n \<Rightarrow> deref n \<noteq> None)"

definition is_dir :: "node option \<Rightarrow> bool" where
  "is_dir p = (case p of None \<Rightarrow> False
               | Some n \<Rightarrow> (case deref n of Some (Dir es) \<Rightarrow> True | _ \<Rightarrow> False))"

definition is_file :: "node option \<Rightarrow> bool" where
  "is_file p = (case p of None \<Rightarrow> False
                | Some n \<Rightarrow> (case deref n of Some File \<Rightarrow> True | _ \<Rightarrow> False))"

definition is_symlink :: "node option \<Rightarrow> bool" where
  "is_symlink p = (case p of Some (Symlink t r) \<Rightarrow> True | _ \<Rightarrow> False)"

text \<open>
  \<^verbatim>\<open>path / name\<close> in the marketplace tree: the entry \<open>name\<close> of the directory that
  \<open>p\<close> resolves to.
\<close>

definition child :: "node option \<Rightarrow> string \<Rightarrow> node option" where
  "child p name = (case p of None \<Rightarrow> None
                   | Some n \<Rightarrow> (case deref n of Some (Dir es) \<Rightarrow> map_of es name | _ \<Rightarrow> None))"

text \<open>
  \<^verbatim>\<open>path.iterdir()\<close> of a node that \<^verbatim>\<open>is_dir\<close>.
\<close>

definition iterdir :: "node \<Rightarrow> listing" where
  "iterdir n = (case deref n of Some (Dir es) \<Rightarrow> es | _ \<Rightarrow> [])"

definition names :: "listing \<Rightarrow> string set" where
  "names es = fst ` set es"

section \<open>Constants\<close>

definition PLUGIN_INDICATORS :: "string list" where
  "PLUGIN_INDICATORS =
     [''plugin.json'', ''skills'', ''hooks'', ''agents'', ''commands'', ''README.md'']"

definition EXCLUDE_NAMES :: "string set" where
  "EXCLUDE_NAMES =
     {''.git'', ''.github'', ''.claude'', ''.claude-plugin'', ''node_modules'',
      ''__pycache__'', ''.venv'', ''tests'', ''test'', ''docs'', ''doc'', ''src'',
      ''dist'', ''build''}"

definition get_claude_marketplace :: "path \<Rightarrow> path" where
  "get_claude_marketplace home = home @ [''.claude'', ''plugins'', ''marketplaces'']"

definition get_bridge_plugins_dir :: "path \<Rightarrow> path" where
  "get_bridge_plugins_dir home =
     home @ [''.gemini'', ''antigravity'', ''skills'', ''claude-bridge'', ''plugins'']"

definition get_global_workflows_dir :: "path \<Rightarrow> path" where
  "get_global_workflows_dir home = home @ [''.gemini'', ''antigravity'', ''global_workflows'']"

section \<open>Plugin classifier\<close>

definition startswith :: "string \<Rightarrow> string \<Rightarrow> bool" where
  "startswith s p = (take (length p) s = p)"

definition is_plugin_dir :: "string \<Rightarrow> node \<Rightarrow> bool" where
  "is_plugin_dir name n =
     (if startswith name ''.'' \<or> name \<in> EXCLUDE_NAMES then False
      else list_ex (\<lambda>indicator. exists_path (child (Some n) indicator)) PLUGIN_INDICATORS)"

section \<open>The environment of the destination directories\<close>

datatype dest_dir = BridgePlugins | GlobalWorkflows

text \<open>
  Where \<^verbatim>\<open>bridge_plugins / name\<close> leads for a query \<open>name\<close> that is no entry name of the
  directory: to the directory itself, to the entry that a name addresses, or
  elsewhere (an absolute query, one with \<^verbatim>\<open>..\<close>, one that descends into an entry).
\<close>

datatype target = Here | Entry string | Elsewhere

text \<open>
  What the script does not decide and the operating system does:

  \<^item> \<open>name_key\<close>: two names address the same entry of a destination directory exactly
    when their keys are equal (the identity on a case-sensitive file system, case
    folding on the usual NTFS and APFS volumes);
  \<^item> \<open>name_max\<close>: the longest entry name; \<^verbatim>\<open>stat\<close> of a longer name that addresses no
    entry raises \<^verbatim>\<open>OSError\<close> (name too long), and no longer name can be created;
  \<^item> \<open>create_denied\<close>, \<open>remove_denied\<close>: the error with which the system refuses to
    create, or to remove, the entry of that name in that directory (permissions, a
    read-only volume, an entry in use), if it refuses;
  \<^item> \<open>locate\<close>, \<open>beyond\<close>: how the path library joins a query to the bridge-plugins
    path, and what \<^verbatim>\<open>exists\<close> answers (or raises) for a query that leads elsewhere;
  \<^item> \<open>resolve_path\<close>: \<^verbatim>\<open>Path.resolve()\<close> of a path, which follows every link on the
    way, those in the part above the bridge-plugins directory included.
\<close>

record env =
  name_key :: "string \<Rightarrow> string"
  name_max :: nat
  create_denied :: "dest_dir \<Rightarrow> string \<Rightarrow> error option"
  remove_denied :: "dest_dir \<Rightarrow> string \<Rightarrow> error option"
  locate :: "string \<Rightarrow> target"
  beyond :: "string \<Rightarrow> error + bool"
  resolve_path :: "path \<Rightarrow> path"

text \<open>
  The entry that a name addresses in a listing: the entry of exactly that name, else the
  first entry with the same key.  (A directory of a real file system holds at most one
  entry per key, and then both are the same entry.)
\<close>

definition lookup :: "env \<Rightarrow> listing \<Rightarrow> string \<Rightarrow> node option" where
  "lookup e es name =
     (case map_of es name of
        Some n \<Rightarrow> Some n
      | None \<Rightarrow> map_of (map (\<lambda>x. (name_key e (fst x), snd x)) es) (name_key e name))"

definition too_long :: "env \<Rightarrow> string \<Rightarrow> bool" where
  "too_long e name = (name_max e < length name)"

section \<open>Operating-system primitives on one directory\<close>

text \<open>
  Each primitive acts on the listing of the directory that holds the destination entry
  and either fails with the error the call raises or returns the new listing.
  \<^verbatim>\<open>os.symlink\<close> and \<^verbatim>\<open>mklink\<close> refuse a name that addresses an entry, a name that is
  too long, and what the system denies; \<^verbatim>\<open>mklink /H\<close> also needs a source that is a
  file, and a failed \<^verbatim>\<open>mklink\<close> is the \<^verbatim>\<open>CalledProcessError\<close> of \<^verbatim>\<open>subprocess.run\<close>.
  \<^verbatim>\<open>os.rmdir\<close> removes an empty directory or (on Windows) a junction or a directory
  link; \<^verbatim>\<open>unlink\<close> / \<^verbatim>\<open>os.remove\<close> remove anything but a real directory; both fail
  on a name that addresses nothing and on what the system denies.
\<close>

definition remove_entry :: "env \<Rightarrow> string \<Rightarrow> listing \<Rightarrow> listing" where
  "remove_entry e name es =
     (if name \<in> names es then filter (\<lambda>x. fst x \<noteq> name) es
      else filter (\<lambda>x. name_key e (fst x) \<noteq> name_key e name) es)"

definition os_symlink ::
  "env \<Rightarrow> dest_dir \<Rightarrow> path \<Rightarrow> node option \<Rightarrow> string \<Rightarrow> listing \<Rightarrow> error + listing" where
  "os_symlink e d source src dest es =
     (if lookup e es dest \<noteq> None then Inl FileExistsError
      else if too_long e dest then Inl NameTooLong
      else (case create_denied e d dest of
              Some err \<Rightarrow> Inl err
            | None \<Rightarrow> Inr (es @ [(dest, Symlink source src)])))"

definition mklink_J ::
  "env \<Rightarrow> dest_dir \<Rightarrow> path \<Rightarrow> node option \<Rightarrow> string \<Rightarrow> listing \<Rightarrow> error + listing" where
  "mklink_J e d source src dest es =
     (if lookup e es dest \<noteq> None \<or> too_long e dest \<or> create_denied e d dest \<noteq> None
      then Inl CalledProcessError
      else Inr (es @ [(dest, Junction source src)]))"

definition mklink_H ::
  "env \<Rightarrow> dest_dir \<Rightarrow> path \<Rightarrow> node option \<Rightarrow> string \<Rightarrow> listing \<Rightarrow> error + listing" where
  "mklink_H e d source src dest es =
     (if lookup e es dest \<noteq> None \<or> too_long e dest \<or> create_denied e d dest \<noteq> None
      then Inl CalledProcessError
      else if is_file src then Inr (es @ [(dest, File)])
      else Inl CalledProcessError)"

text \<open>The error of a removal whose name addresses no entry.\<close>

definition missing :: "env \<Rightarrow> string \<Rightarrow> error" where
  "missing e name = (if too_long e name then NameTooLong else FileNotFoundError)"

definition os_rmdir :: "env \<Rightarrow> dest_dir \<Rightarrow> bool \<Rightarrow> string \<Rightarrow> listing \<Rightarrow> error + listing" where
  "os_rmdir e d windows name es =
     (case lookup e es name of
        None \<Rightarrow> Inl (missing e name)
      | Some n \<Rightarrow>
          (case remove_denied e d name of
             Some err \<Rightarrow> Inl err
           | None \<Rightarrow>
               (case n of
                  File \<Rightarrow> Inl NotADirectoryError
                | Special \<Rightarrow> Inl NotADirectoryError
                | Dir cs \<Rightarrow>
                    (if cs = [] then Inr (remove_entry e name es) else Inl DirectoryNotEmpty)
                | Symlink p t \<Rightarrow>
                    (if windows \<and> is_dir (Some (Symlink p t)) then Inr (remove_entry e name es)
                     else Inl NotADirectoryError)
                | Junction p t \<Rightarrow> Inr (remove_entry e name es))))"

definition os_unlink :: "env \<Rightarrow> dest_dir \<Rightarrow> string \<Rightarrow> listing \<Rightarrow> error + listing" where
  "os_unlink e d name es =
     (case lookup e es name of
        None \<Rightarrow> Inl (missing e name)
      | Some n \<Rightarrow>
          (case remove_denied e d name of
             Some err \<Rightarrow> Inl err
           | None \<Rightarrow>
               (case n of
                  Dir cs \<Rightarrow> Inl IsADirectoryError
                | _ \<Rightarrow> Inr (remove_entry e name es))))"

section \<open>Link primitive layer\<close>

datatype msg =
    MsgHeader
  | MsgMarketplaceNotFound
  | MsgMarketplace string
  | MsgLinkPlugin string
  | MsgLinkWorkflow string string
  | MsgRemovePlugin string
  | MsgRemoveWorkflow string
  | MsgFailedLinkDir error
  | MsgFailedLinkFile error
  | MsgFailedRemove error
  | MsgDone nat nat nat nat nat nat nat nat

text \<open>
  Every \<^verbatim>\<open>print\<close> of the commands is a message appended to the output.  A world is
  the two destination directories, the lines printed so far, the exception that has
  left \<^verbatim>\<open>cmd_sync\<close> (if one was raised outside every \<^verbatim>\<open>try\<close>), and the environment.
\<close>

record world =
  bridge :: listing
  workflows :: listing
  out :: "msg list"
  raised :: "error option"
  os :: env

text \<open>
  A destination path is a destination directory and an entry name.  The link primitives
  take the source as its path together with what that path names; a raised exception is
  the \<open>Inl\<close> of the operating-system primitive, caught by the \<^verbatim>\<open>except\<close> branch.
\<close>

type_synonym dest = "dest_dir \<times> string"

definition get_dir :: "dest_dir \<Rightarrow> world \<Rightarrow> listing" where
  "get_dir d w = (case d of BridgePlugins \<Rightarrow> bridge w | GlobalWorkflows \<Rightarrow> workflows w)"

definition set_dir :: "dest_dir \<Rightarrow> listing \<Rightarrow> world \<Rightarrow> world" where
  "set_dir d es w =
     (case d of BridgePlugins \<Rightarrow> w\<lparr>bridge := es\<rparr> | GlobalWorkflows \<Rightarrow> w\<lparr>workflows := es\<rparr>)"

definition print :: "msg \<Rightarrow> world \<Rightarrow> world" where
  "print m w = w\<lparr>out := out w @ [m]\<rparr>"

definition at_dest :: "dest \<Rightarrow> world \<Rightarrow> node option" where
  "at_dest dst w = lookup (os w) (get_dir (fst dst) w) (snd dst)"

definition create_link :: "path \<Rightarrow> node option \<Rightarrow> dest \<Rightarrow> bool \<Rightarrow> world \<Rightarrow> bool \<times> world" where
  "create_link source src dst is_windows w =
     (case (if is_windows
            then mklink_J (os w) (fst dst) source src (snd dst) (get_dir (fst dst) w)
            else os_symlink (os w) (fst dst) source src (snd dst) (get_dir (fst dst) w)) of
        Inr es \<Rightarrow> (True, set_dir (fst dst) es w)
      | Inl e \<Rightarrow> (False, print (MsgFailedLinkDir e) w))"

definition create_file_link :: "path \<Rightarrow> node option \<Rightarrow> dest \<Rightarrow> bool \<Rightarrow> world \<Rightarrow> bool \<times> world" where
  "create_file_link source src dst is_windows w =
     (case (if is_windows
            then mklink_H (os w) (fst dst) source src (snd dst) (get_dir (fst dst) w)
            else os_symlink (os w) (fst dst) source src (snd dst) (get_dir (fst dst) w)) of
        Inr es \<Rightarrow> (True, set_dir (fst dst) es w)
      | Inl e \<Rightarrow> (False, print (MsgFailedLinkFile e) w))"

definition remove_link :: "dest \<Rightarrow> bool \<Rightarrow> world \<Rightarrow> bool \<times> world" where
  "remove_link dst is_windows w =
     (case (if is_windows then
              (if is_dir (at_dest dst w)
               then os_rmdir (os w) (fst dst) True (snd dst) (get_dir (fst dst) w)
               else os_unlink (os w) (fst dst) (snd dst) (get_dir (fst dst) w))
            else
              (if is_symlink (at_dest dst w) \<or> is_file (at_dest dst w)
               then os_unlink (os w) (fst dst) (snd dst) (get_dir (fst dst) w)
               else os_rmdir (os w) (fst dst) False (snd dst) (get_dir (fst dst) w))) of
        Inr es \<Rightarrow> (True, set_dir (fst dst) es w)
      | Inl e \<Rightarrow> (False, print (MsgFailedRemove e) w))"

section \<open>Plugin resolver\<close>

datatype failure = Ambiguous "string list" | NotFound | Uncaught error

definition root_iterdir :: "root \<Rightarrow> error + listing" where
  "root_iterdir r =
     (case r of Absent \<Rightarrow> Inl FileNotFoundError
      | DanglingLink \<Rightarrow> Inl FileNotFoundError
      | BelowNonDirectory \<Rightarrow> Inl NotADirectoryError
      | NonDirectory \<Rightarrow> Inl NotADirectoryError
      | Directory es \<Rightarrow> Inr es)"

definition root_exists :: "root \<Rightarrow> bool" where
  "root_exists r = (case r of NonDirectory \<Rightarrow> True | Directory es \<Rightarrow> True | _ \<Rightarrow> False)"

definition root_is_dir :: "root \<Rightarrow> bool" where
  "root_is_dir r = (case r of Directory es \<Rightarrow> True | _ \<Rightarrow> False)"

text \<open>
  \<^verbatim>\<open>exact.exists()\<close> for \<^verbatim>\<open>exact = bridge_plugins / name\<close>.  A query that is the name of
  an entry leads to that entry (this is how \<^verbatim>\<open>iterdir\<close> forms its paths); any other
  query leads where the path library takes it.  \<^verbatim>\<open>exists\<close> answers false where nothing
  is found, except that it raises for a name that is too long.
\<close>

definition exact_exists :: "env \<Rightarrow> root \<Rightarrow> string \<Rightarrow> error + bool" where
  "exact_exists e r name =
     (case (case r of Directory es \<Rightarrow> map_of es name | _ \<Rightarrow> None) of
        Some n \<Rightarrow> Inr (exists_path (Some n))
      | None \<Rightarrow>
          (case locate e name of
             Here \<Rightarrow> Inr (root_exists r)
           | Entry c \<Rightarrow>
               (case r of
                  Directory es \<Rightarrow>
                    (case lookup e es c of
                       Some n \<Rightarrow> Inr (exists_path (Some n))
                     | None \<Rightarrow> if too_long e c then Inl NameTooLong else Inr False)
                | _ \<Rightarrow> Inr False)
           | Elsewhere \<Rightarrow> beyond e name))"

definition resolve_candidates :: "env \<Rightarrow> path \<Rightarrow> root \<Rightarrow> string \<Rightarrow> failure + path" where
  "resolve_candidates e bridge_plugins r name =
     (case root_iterdir r of
        Inl err \<Rightarrow> Inl (Uncaught err)
      | Inr es \<Rightarrow>
          (let candidates = filter (\<lambda>p. sublist name (fst p)) es in
           if length candidates = 1
           then Inr (resolve_path e (bridge_plugins @ [fst (hd candidates)]))
           else if length candidates > 1 then Inl (Ambiguous (map fst candidates))
           else Inl NotFound))"

definition resolve_plugin :: "env \<Rightarrow> path \<Rightarrow> root \<Rightarrow> string \<Rightarrow> failure + path" where
  "resolve_plugin e bridge_plugins r name =
     (case exact_exists e r name of
        Inl err \<Rightarrow> Inl (Uncaught err)
      | Inr True \<Rightarrow> Inr (resolve_path e (bridge_plugins @ [name]))
      | Inr False \<Rightarrow> resolve_candidates e bridge_plugins r name)"

section \<open>The sync command\<close>

text \<open>
  The local variables of \<^verbatim>\<open>cmd_sync\<close>; the counters start at 0 and only
  count up.
\<close>

record locals =
  valid_plugin_names :: "string list"
  valid_workflow_names :: "string list"
  plugins_linked :: nat
  plugins_skipped :: nat
  workflows_linked :: nat
  workflows_skipped :: nat
  plugins_removed :: nat
  workflows_removed :: nat

record fs =
  home :: path
  platform_system :: string
  marketplace :: root
  bridge_plugins :: root
  global_workflows :: root
  environment :: env

datatype outcome = Skipped | Crashed error | Done locals

definition endswith :: "string \<Rightarrow> string \<Rightarrow> bool" where
  "endswith s suf = (length suf \<le> length s \<and> drop (length s - length suf) s = suf)"

text \<open>\<^verbatim>\<open>commands_dir.glob("*.md")\<close>: the entries whose name ends in \<^verbatim>\<open>.md\<close>, in the order
  of the directory (the source does not sort them).\<close>

definition glob_md :: "listing \<Rightarrow> listing" where
  "glob_md es = filter (\<lambda>e. endswith (fst e) ''.md'') es"

text \<open>
  \<^verbatim>\<open>sorted(d.iterdir())\<close>: paths of one directory, ordered by name.
\<close>

definition sorted_entries :: "listing \<Rightarrow> listing" where
  "sorted_entries es = sort_key fst es"

definition listdir :: "node option \<Rightarrow> listing" where
  "listdir p = (case p of None \<Rightarrow> [] | Some n \<Rightarrow> iterdir n)"

text \<open>\<^verbatim>\<open>mkdir(parents=True, exist_ok=True)\<close>: the listing of the directory afterwards.\<close>

definition mkdir_p :: "root \<Rightarrow> error + listing" where
  "mkdir_p r =
     (case r of Absent \<Rightarrow> Inr []
      | DanglingLink \<Rightarrow> Inl FileExistsError
      | BelowNonDirectory \<Rightarrow> Inl NotADirectoryError
      | NonDirectory \<Rightarrow> Inl FileExistsError
      | Directory es \<Rightarrow> Inr es)"

text \<open>
  \<^verbatim>\<open>dest.exists() or dest.is_symlink()\<close>, which stands outside every \<^verbatim>\<open>try\<close>: the
  answer, or the exception of \<^verbatim>\<open>exists\<close> for a name that is too long and addresses no
  entry.
\<close>

definition present :: "dest \<Rightarrow> world \<Rightarrow> error + bool" where
  "present dst w =
     (case at_dest dst w of
        Some n \<Rightarrow> Inr (exists_path (Some n) \<or> is_symlink (Some n))
      | None \<Rightarrow> if too_long (os w) (snd dst) then Inl NameTooLong else Inr False)"

text \<open>
  The bodies of the loops.  Once an exception has been raised nothing more is executed:
  every body leaves such a state as it is.
\<close>

definition cmd_step ::
  "bool \<Rightarrow> string \<Rightarrow> string \<Rightarrow> path \<Rightarrow> world \<times> locals \<Rightarrow> string \<times> node \<Rightarrow> world \<times> locals" where
  "cmd_step is_windows mp_name plugin_name commands_dir s cmd_file =
     (if raised (fst s) \<noteq> None then s
      else
        (let w = fst s; l = snd s;
             wf_name = ''cb__'' @ mp_name @ ''__'' @ plugin_name @ ''__'' @ fst cmd_file;
             wf_dest = (GlobalWorkflows, wf_name);
             l1 = l\<lparr>valid_workflow_names := valid_workflow_names l @ [wf_name]\<rparr>
         in case present wf_dest w of
              Inl err \<Rightarrow> (w\<lparr>raised := Some err\<rparr>, l1)
            | Inr True \<Rightarrow> (w, l1\<lparr>workflows_skipped := workflows_skipped l1 + 1\<rparr>)
            | Inr False \<Rightarrow>
                (let w1 = print (MsgLinkWorkflow (fst cmd_file) wf_name) w;
                     r = create_file_link (commands_dir @ [fst cmd_file]) (Some (snd cmd_file))
                           wf_dest is_windows w1
                 in if fst r then (snd r, l1\<lparr>workflows_linked := workflows_linked l1 + 1\<rparr>)
                    else (snd r, l1))))"

definition link_plugin ::
  "bool \<Rightarrow> string \<Rightarrow> path \<Rightarrow> world \<times> locals \<Rightarrow> string \<times> node \<Rightarrow> world \<times> locals" where
  "link_plugin is_windows mp_name plugin_base s plugin_dir =
     (if raised (fst s) \<noteq> None then s
      else
        (let w = fst s; l = snd s;
             bridge_name = mp_name @ ''__'' @ fst plugin_dir;
             dst = (BridgePlugins, bridge_name);
             l1 = l\<lparr>valid_plugin_names := valid_plugin_names l @ [bridge_name]\<rparr>
         in case present dst w of
              Inl err \<Rightarrow> (w\<lparr>raised := Some err\<rparr>, l1)
            | Inr True \<Rightarrow> (w, l1\<lparr>plugins_skipped := plugins_skipped l1 + 1\<rparr>)
            | Inr False \<Rightarrow>
                (let w1 = print (MsgLinkPlugin (fst plugin_dir)) w;
                     r = create_link (plugin_base @ [fst plugin_dir]) (Some (snd plugin_dir))
                           dst is_windows w1
                 in if fst r then (snd r, l1\<lparr>plugins_linked := plugins_linked l1 + 1\<rparr>)
                    else (snd r, l1))))"

definition plugin_step ::
  "bool \<Rightarrow> string \<Rightarrow> path \<Rightarrow> world \<times> locals \<Rightarrow> string \<times> node \<Rightarrow> world \<times> locals" where
  "plugin_step is_windows mp_name plugin_base s plugin_dir =
     (if raised (fst s) \<noteq> None then s
      else if \<not> is_dir (Some (snd plugin_dir)) then s
      else if \<not> is_plugin_dir (fst plugin_dir) (snd plugin_dir) then s
      else
        (let s1 = link_plugin is_windows mp_name plugin_base s plugin_dir;
             commands_dir = child (Some (snd plugin_dir)) ''commands''
         in if exists_path commands_dir \<and> is_dir commands_dir
            then foldl (cmd_step is_windows mp_name (fst plugin_dir)
                          (plugin_base @ [fst plugin_dir, ''commands'']))
                   s1 (glob_md (listdir commands_dir))
            else s1))"

definition mp_step :: "bool \<Rightarrow> path \<Rightarrow> world \<times> locals \<Rightarrow> string \<times> node \<Rightarrow> world \<times> locals" where
  "mp_step is_windows marketplace_path s mp_dir =
     (if raised (fst s) \<noteq> None then s
      else if \<not> is_dir (Some (snd mp_dir)) \<or> startswith (fst mp_dir) ''.'' then s
      else
        (let mp_name = fst mp_dir;
             s1 = (print (MsgMarketplace mp_name) (fst s), snd s);
             plugins_sub = child (Some (snd mp_dir)) ''plugins''
         in if is_dir plugins_sub
            then foldl (plugin_step is_windows mp_name (marketplace_path @ [mp_name, ''plugins'']))
                   s1 (sorted_entries (listdir plugins_sub))
            else foldl (plugin_step is_windows mp_name (marketplace_path @ [mp_name]))
                   s1 (sorted_entries (listdir (Some (snd mp_dir))))))"

definition cleanup_plugin_step :: "bool \<Rightarrow> world \<times> locals \<Rightarrow> string \<times> node \<Rightarrow> world \<times> locals" where
  "cleanup_plugin_step is_windows s existing =
     (let w = fst s; l = snd s in
      if fst existing \<notin> set (valid_plugin_names l) then
        (let w1 = print (MsgRemovePlugin (fst existing)) w;
             r = remove_link (BridgePlugins, fst existing) is_windows w1
         in if fst r then (snd r, l\<lparr>plugins_removed := plugins_removed l + 1\<rparr>)
            else (snd r, l))
      else s)"

definition cleanup_workflow_step :: "bool \<Rightarrow> world \<times> locals \<Rightarrow> string \<times> node \<Rightarrow> world \<times> locals" where
  "cleanup_workflow_step is_windows s existing =
     (let w = fst s; l = snd s in
      if startswith (fst existing) ''cb__'' \<and> fst existing \<notin> set (valid_workflow_names l) then
        (let w1 = print (MsgRemoveWorkflow (fst existing)) w;
             r = remove_link (GlobalWorkflows, fst existing) is_windows w1
         in if fst r then (snd r, l\<lparr>workflows_removed := workflows_removed l + 1\<rparr>)
            else (snd r, l))
      else s)"

text \<open>The cleanup loops, reached only when the main loop has raised nothing.\<close>

definition cleanup_plugins :: "bool \<Rightarrow> world \<times> locals \<Rightarrow> world \<times> locals" where
  "cleanup_plugins is_windows s =
     (if raised (fst s) \<noteq> None then s
      else foldl (cleanup_plugin_step is_windows) (fst s, (snd s)\<lparr>plugins_removed := 0\<rparr>)
             (sorted_entries (bridge (fst s))))"

definition cleanup_workflows :: "bool \<Rightarrow> world \<times> locals \<Rightarrow> world \<times> locals" where
  "cleanup_workflows is_windows s =
     (if raised (fst s) \<noteq> None then s
      else foldl (cleanup_workflow_step is_windows) (fst s, (snd s)\<lparr>workflows_removed := 0\<rparr>)
             (sorted_entries (workflows (fst s))))"

definition init_locals :: locals where
  "init_locals = \<lparr>valid_plugin_names = [], valid_workflow_names = [],
     plugins_linked = 0, plugins_skipped = 0, workflows_linked = 0, workflows_skipped = 0,
     plugins_removed = 0, workflows_removed = 0\<rparr>"

definition msg_done :: "locals \<Rightarrow> msg" where
  "msg_done l = MsgDone (length (valid_plugin_names l)) (plugins_linked l) (plugins_skipped l)
     (plugins_removed l) (length (valid_workflow_names l)) (workflows_linked l)
     (workflows_skipped l) (workflows_removed l)"

text \<open>The loops of \<^verbatim>\<open>cmd_sync\<close> once both destination directories exist and the
  marketplace has been listed; the summary is printed when nothing was raised.\<close>

definition sync_loops :: "bool \<Rightarrow> path \<Rightarrow> listing \<Rightarrow> world \<Rightarrow> world \<times> locals" where
  "sync_loops is_windows marketplace_path ms w =
     (let s1 = foldl (mp_step is_windows marketplace_path) (w, init_locals) (sorted_entries ms);
          s2 = cleanup_plugins is_windows s1;
          s3 = cleanup_workflows is_windows s2
      in if raised (fst s3) \<noteq> None then s3
         else (print (msg_done (snd s3)) (fst s3), snd s3))"

definition cmd_sync :: "fs \<Rightarrow> outcome \<times> fs \<times> msg list" where
  "cmd_sync f =
     (let is_windows = (platform_system f = ''Windows'') in
      if \<not> root_exists (marketplace f) then (Skipped, f, [MsgHeader, MsgMarketplaceNotFound])
      else
        (case mkdir_p (bridge_plugins f) of
           Inl e \<Rightarrow> (Crashed e, f, [MsgHeader])
         | Inr b \<Rightarrow>
             (case mkdir_p (global_workflows f) of
                Inl e \<Rightarrow> (Crashed e, f\<lparr>bridge_plugins := Directory b\<rparr>, [MsgHeader])
              | Inr g \<Rightarrow>
                  (case root_iterdir (marketplace f) of
                     Inl e \<Rightarrow>
                       (Crashed e,
                        f\<lparr>bridge_plugins := Directory b, global_workflows := Directory g\<rparr>,
                        [MsgHeader])
                   | Inr ms \<Rightarrow>
                       (let s = sync_loops is_windows (get_claude_marketplace (home f)) ms
                                  \<lparr>bridge = b, workflows = g, out = [MsgHeader],
                                   raised = None, os = environment f\<rparr>
                        in (case raised (fst s) of
                              Some e \<Rightarrow> Crashed e
                            | None \<Rightarrow> Done (snd s),
                            f\<lparr>bridge_plugins := Directory (bridge (fst s)),
                              global_workflows := Directory (workflows (fst s))\<rparr>,
                            out (fst s)))))))"

section \<open>What the link primitives do to an entry\<close>

text \<open>
  A destination entry on which \<^verbatim>\<open>remove_link\<close> succeeds: the system does not deny
  the removal, and the entry is neither a real directory that has entries nor (outside
  Windows) a special file, which \<^verbatim>\<open>os.rmdir\<close> refuses.
\<close>

definition removable :: "bool \<Rightarrow> env \<Rightarrow> dest_dir \<Rightarrow> string \<Rightarrow> node \<Rightarrow> bool" where
  "removable iw e d name n =
     (remove_denied e d name = None \<and>
      (case n of Dir cs \<Rightarrow> cs = [] | Special \<Rightarrow> iw | _ \<Rightarrow> True))"

text \<open>The error that \<^verbatim>\<open>remove_link\<close> reports for an entry it cannot remove.\<close>

definition remove_error :: "env \<Rightarrow> dest_dir \<Rightarrow> string \<Rightarrow> node \<Rightarrow> error" where
  "remove_error e d name n =
     (case remove_denied e d name of
        Some err \<Rightarrow> err
      | None \<Rightarrow> (case n of Dir cs \<Rightarrow> DirectoryNotEmpty | _ \<Rightarrow> NotADirectoryError))"




section \<open>Matches of the resolver\<close>

text \<open>
  The entries whose name contains the query (\<^verbatim>\<open>name in p.name\<close>).
\<close>

abbreviation matches :: "string \<Rightarrow> listing \<Rightarrow> listing" where
  "matches name es \<equiv> filter (\<lambda>p. sublist name (fst p)) es"

section \<open>The scan as a sequence of actions\<close>

text \<open>
  The loops of \<^verbatim>\<open>cmd_sync\<close> interleave finding candidates and linking them.  The
  candidates depend on the marketplace only; \<open>scan\<close> lists, in the order of the loops,
  what the body does for each: announce a marketplace, link a plugin, link a workflow.
\<close>

datatype action =
    Announce string
  | LinkPlugin string path "string \<times> node"
  | LinkWorkflow string string path "string \<times> node"

definition apply_action :: "bool \<Rightarrow> world \<times> locals \<Rightarrow> action \<Rightarrow> world \<times> locals" where
  "apply_action is_windows s a =
     (case a of
        Announce mp_name \<Rightarrow>
          if raised (fst s) \<noteq> None then s else (print (MsgMarketplace mp_name) (fst s), snd s)
      | LinkPlugin mp_name plugin_base plugin_dir \<Rightarrow>
          link_plugin is_windows mp_name plugin_base s plugin_dir
      | LinkWorkflow mp_name plugin_name commands_dir cmd_file \<Rightarrow>
          cmd_step is_windows mp_name plugin_name commands_dir s cmd_file)"

definition scan_plugin :: "string \<Rightarrow> path \<Rightarrow> string \<times> node \<Rightarrow> action list" where
  "scan_plugin mp_name plugin_base plugin_dir =
     (if \<not> is_dir (Some (snd plugin_dir)) then []
      else if \<not> is_plugin_dir (fst plugin_dir) (snd plugin_dir) then []
      else
        LinkPlugin mp_name plugin_base plugin_dir #
        (let commands_dir = child (Some (snd plugin_dir)) ''commands''
         in if exists_path commands_dir \<and> is_dir commands_dir
            then map (LinkWorkflow mp_name (fst plugin_dir)
                        (plugin_base @ [fst plugin_dir, ''commands'']))
                   (glob_md (listdir commands_dir))
            else []))"

definition scan_marketplace :: "path \<Rightarrow> string \<times> node \<Rightarrow> action list" where
  "scan_marketplace marketplace_path mp_dir =
     (if \<not> is_dir (Some (snd mp_dir)) \<or> startswith (fst mp_dir) ''.'' then []
      else
        Announce (fst mp_dir) #
        (let plugins_sub = child (Some (snd mp_dir)) ''plugins''
         in if is_dir plugins_sub
            then concat (map (scan_plugin (fst mp_dir) (marketplace_path @ [fst mp_dir, ''plugins'']))
                           (sorted_entries (listdir plugins_sub)))
            else concat (map (scan_plugin (fst mp_dir) (marketplace_path @ [fst mp_dir]))
                           (sorted_entries (listdir (Some (snd mp_dir)))))))"

definition scan :: "path \<Rightarrow> listing \<Rightarrow> action list" where
  "scan marketplace_path ms =
     concat (map (scan_marketplace marketplace_path) (sorted_entries ms))"

fun plugin_ids :: "action list \<Rightarrow> string list" where
  "plugin_ids [] = []"
| "plugin_ids (LinkPlugin mp_name plugin_base plugin_dir # as) =
     (mp_name @ ''__'' @ fst plugin_dir) # plugin_ids as"
| "plugin_ids (a # as) = plugin_ids as"

fun workflow_ids :: "action list \<Rightarrow> string list" where
  "workflow_ids [] = []"
| "workflow_ids (LinkWorkflow mp_name plugin_name commands_dir cmd_file # as) =
     (''cb__'' @ mp_name @ ''__'' @ plugin_name @ ''__'' @ fst cmd_file) # workflow_ids as"
| "workflow_ids (a # as) = workflow_ids as"

text \<open>The main loop as a fold over the actions of the scan.\<close>

abbreviation run :: "bool \<Rightarrow> world \<times> locals \<Rightarrow> action list \<Rightarrow> world \<times> locals" where
  "run iw s as \<equiv> foldl (apply_action iw) s as"

text \<open>Plugin candidates of the scan are directories.\<close>

definition wf_action :: "action \<Rightarrow> bool" where
  "wf_action a = (case a of LinkPlugin mp base pd \<Rightarrow> is_dir (Some (snd pd)) | _ \<Rightarrow> True)"

text \<open>
  The entry \<^verbatim>\<open>create_link\<close> makes: a junction on Windows, a symbolic link
  elsewhere.
\<close>

definition dir_link_node :: "bool \<Rightarrow> path \<Rightarrow> node \<Rightarrow> node" where
  "dir_link_node is_windows source n =
     (if is_windows then Junction source (Some n) else Symlink source (Some n))"

text \<open>An entry counts as already there for \<^verbatim>\<open>cmd_sync\<close> when the name addresses
  something that exists or is a symbolic link.\<close>

definition present_in :: "env \<Rightarrow> listing \<Rightarrow> string \<Rightarrow> bool" where
  "present_in e es name = (exists_path (lookup e es name) \<or> is_symlink (lookup e es name))"


text \<open>
  A candidate that another run leaves alone: its destination name addresses an entry, or
  no link can be made for it (the system denies the creation, or it is a workflow on
  Windows whose source is no file, so that no hard link to it can be made).
\<close>

definition settled_action :: "bool \<Rightarrow> world \<Rightarrow> action \<Rightarrow> bool" where
  "settled_action iw w a =
     (case a of
        Announce mp_name \<Rightarrow> True
      | LinkPlugin mp_name plugin_base plugin_dir \<Rightarrow>
          lookup (os w) (bridge w) (mp_name @ ''__'' @ fst plugin_dir) \<noteq> None \<or>
          (\<not> too_long (os w) (mp_name @ ''__'' @ fst plugin_dir) \<and>
           create_denied (os w) BridgePlugins (mp_name @ ''__'' @ fst plugin_dir) \<noteq> None)
      | LinkWorkflow mp_name plugin_name commands_dir cmd_file \<Rightarrow>
          lookup (os w) (workflows w)
            (''cb__'' @ mp_name @ ''__'' @ plugin_name @ ''__'' @ fst cmd_file) \<noteq> None \<or>
          (\<not> too_long (os w) (''cb__'' @ mp_name @ ''__'' @ plugin_name @ ''__'' @ fst cmd_file) \<and>
           (create_denied (os w) GlobalWorkflows
              (''cb__'' @ mp_name @ ''__'' @ plugin_name @ ''__'' @ fst cmd_file) \<noteq> None \<or>
            (iw \<and> \<not> is_file (Some (snd cmd_file))))))"

text \<open>
  One listing continues another: it starts with it, and every name that addressed an
  entry still addresses the same one.
\<close>

definition kext :: "env \<Rightarrow> listing \<Rightarrow> listing \<Rightarrow> bool" where
  "kext e es es' =
     (prefix es es' \<and> (\<forall>m. lookup e es m \<noteq> None \<longrightarrow> lookup e es' m = lookup e es m))"

section \<open>Reported failures\<close>

definition is_failure :: "msg \<Rightarrow> bool" where
  "is_failure m =
     (case m of MsgFailedLinkDir e \<Rightarrow> True | MsgFailedLinkFile e \<Rightarrow> True
      | MsgFailedRemove e \<Rightarrow> True | _ \<Rightarrow> False)"

definition is_link_failure :: "msg \<Rightarrow> bool" where
  "is_link_failure m =
     (case m of MsgFailedLinkDir e \<Rightarrow> True | MsgFailedLinkFile e \<Rightarrow> True | _ \<Rightarrow> False)"

text \<open>No link creation among the printed lines failed.\<close>

definition no_link_failure :: "msg list \<Rightarrow> bool" where
  "no_link_failure ms = (\<forall>m \<in> set ms. \<not> is_link_failure m)"

text \<open>No link creation or removal among the printed lines failed.\<close>

definition no_failure :: "msg list \<Rightarrow> bool" where
  "no_failure ms = (\<forall>m \<in> set ms. \<not> is_failure m)"




text \<open>
  Two worlds with the same destination directories and the same reported failures.
\<close>

definition same_dirs :: "world \<Rightarrow> world \<Rightarrow> bool" where
  "same_dirs w w' = (bridge w' = bridge w \<and> workflows w' = workflows w \<and>
     filter is_failure (out w') = filter is_failure (out w))"

section \<open>The cleanup loops in one form\<close>

text \<open>
  The name addresses an entry of the listing and \<^verbatim>\<open>remove_link\<close> succeeds on it.
\<close>

definition rem :: "bool \<Rightarrow> env \<Rightarrow> dest_dir \<Rightarrow> listing \<Rightarrow> string \<Rightarrow> bool" where
  "rem iw e d es n = (case lookup e es n of Some nd \<Rightarrow> removable iw e d n nd | None \<Rightarrow> False)"

text \<open>
  The body shared by the two cleanup loops: \<open>d\<close> is the directory,
  \<open>stale\<close> the test on the entry name, \<open>mk\<close> the line printed, and the
  number counts the removals.
\<close>

definition gstep ::
  "dest_dir \<Rightarrow> (string \<Rightarrow> bool) \<Rightarrow> (string \<Rightarrow> msg) \<Rightarrow> bool \<Rightarrow> world \<times> nat \<Rightarrow> string \<times> node \<Rightarrow> world \<times> nat" where
  "gstep d stale mk iw s e =
     (if stale (fst e) then
        (let w1 = print (mk (fst e)) (fst s);
             r = remove_link (d, fst e) iw w1
         in if fst r then (snd r, snd s + 1) else (snd r, snd s))
      else s)"

text \<open>A cleanup loop over a listing taken beforehand.\<close>

abbreviation gfold ::
  "dest_dir \<Rightarrow> (string \<Rightarrow> bool) \<Rightarrow> (string \<Rightarrow> msg) \<Rightarrow> bool \<Rightarrow> world \<times> nat \<Rightarrow> listing \<Rightarrow> world \<times> nat" where
  "gfold d stale mk iw s snap \<equiv> foldl (gstep d stale mk iw) s snap"

text \<open>
  The test of the workflow cleanup: the name carries the prefix \<^verbatim>\<open>cb__\<close>
  and is no valid workflow name.
\<close>

definition cb_stale :: "string list \<Rightarrow> string \<Rightarrow> bool" where
  "cb_stale valid n = (startswith n ''cb__'' \<and> n \<notin> set valid)"

text \<open>The test of the plugin cleanup: the name is no valid plugin name.\<close>

definition not_valid :: "string list \<Rightarrow> string \<Rightarrow> bool" where
  "not_valid valid n = (n \<notin> set valid)"

section \<open>The stages of a run\<close>

text \<open>
  The state after the main loop and, when that has raised nothing, after the plugin
  cleanup and after the workflow cleanup.
\<close>

definition stage1 :: "bool \<Rightarrow> path \<Rightarrow> listing \<Rightarrow> world \<Rightarrow> world \<times> locals" where
  "stage1 iw mp ms w = run iw (w, init_locals) (scan mp ms)"

definition stage2 :: "bool \<Rightarrow> path \<Rightarrow> listing \<Rightarrow> world \<Rightarrow> world \<times> nat" where
  "stage2 iw mp ms w =
     gfold BridgePlugins (not_valid (plugin_ids (scan mp ms))) MsgRemovePlugin iw
       (fst (stage1 iw mp ms w), 0) (sorted_entries (bridge (fst (stage1 iw mp ms w))))"

definition stage3 :: "bool \<Rightarrow> path \<Rightarrow> listing \<Rightarrow> world \<Rightarrow> world \<times> nat" where
  "stage3 iw mp ms w =
     gfold GlobalWorkflows (cb_stale (workflow_ids (scan mp ms))) MsgRemoveWorkflow iw
       (fst (stage2 iw mp ms w), 0) (sorted_entries (workflows (fst (stage2 iw mp ms w))))"

text \<open>The listing of a root that is a directory (empty otherwise).\<close>

definition listing_of :: "root \<Rightarrow> listing" where
  "listing_of r = (case r of Directory es \<Rightarrow> es | _ \<Rightarrow> [])"

text \<open>
  \<^verbatim>\<open>cmd_sync\<close> on a state where it reaches the loops: the world it starts
  the loops with and what the loops return.
\<close>

definition is_windows_of :: "fs \<Rightarrow> bool" where
  "is_windows_of f = (platform_system f = ''Windows'')"

definition start_world :: "fs \<Rightarrow> world" where
  "start_world f = \<lparr>bridge = listing_of (bridge_plugins f),
                    workflows = listing_of (global_workflows f), out = [MsgHeader],
                    raised = None, os = environment f\<rparr>"

definition loops_of :: "fs \<Rightarrow> world \<times> locals" where
  "loops_of f = sync_loops (is_windows_of f) (get_claude_marketplace (home f))
                  (listing_of (marketplace f)) (start_world f)"



text \<open>The candidates of a run: the canonical names the scan of the marketplace gives.\<close>

definition plugin_candidates :: "fs \<Rightarrow> string list" where
  "plugin_candidates f =
     plugin_ids (scan (get_claude_marketplace (home f)) (listing_of (marketplace f)))"

definition workflow_candidates :: "fs \<Rightarrow> string list" where
  "workflow_candidates f =
     workflow_ids (scan (get_claude_marketplace (home f)) (listing_of (marketplace f)))"

section \<open>Plugin sources as the specification describes them\<close>

text \<open>
  The plugin sources as the specification describes them: for each marketplace entry that is a
  directory and not hidden, the immediate subdirectories of its plugin base (the subdirectory
  \<^verbatim>\<open>plugins\<close> if that is a directory, else the entry itself) that pass
  the classifier; the canonical identifier joins marketplace and plugin name with a double
  underscore.
\<close>

definition plugin_base_listing :: "node \<Rightarrow> listing" where
  "plugin_base_listing m =
     (if is_dir (child (Some m) ''plugins'') then listdir (child (Some m) ''plugins'')
      else listdir (Some m))"

definition plugin_sources :: "listing \<Rightarrow> (string \<times> string) list" where
  "plugin_sources ms =
     concat (map (\<lambda>m. map (\<lambda>p. (fst m, fst p))
                        (filter (\<lambda>p. is_dir (Some (snd p)) \<and> is_plugin_dir (fst p) (snd p))
                           (plugin_base_listing (snd m))))
               (filter (\<lambda>m. is_dir (Some (snd m)) \<and> \<not> startswith (fst m) ''.'') ms))"

definition canonical_id :: "string \<times> string \<Rightarrow> string" where
  "canonical_id x = fst x @ ''__'' @ snd x"

section \<open>Names that address the same entry\<close>

text \<open>
  No entry of the listing that the cleanup would remove is addressed by the name of a
  candidate (as an entry is whose name differs from a candidate's only in case, on a
  file system that ignores case).
\<close>

definition unshadowed :: "env \<Rightarrow> (string \<Rightarrow> bool) \<Rightarrow> string list \<Rightarrow> listing \<Rightarrow> bool" where
  "unshadowed e stale ids es =
     (\<forall>m \<in> names es. stale m \<longrightarrow> name_key e m \<notin> name_key e ` set ids)"

text \<open>
  Each candidate name is the only name, among the candidates and the entries of the
  listing, that addresses its entry.
\<close>

definition key_faithful :: "env \<Rightarrow> string list \<Rightarrow> listing \<Rightarrow> bool" where
  "key_faithful e ids es =
     (\<forall>i \<in> set ids. \<forall>m \<in> names es \<union> set ids. name_key e m = name_key e i \<longrightarrow> m = i)"


section \<open>Example environments and states\<close>

text \<open>
  The components of a POSIX path string: the pieces between slashes.
\<close>

fun split_slash :: "string \<Rightarrow> string list" where
  "split_slash [] = [[]]"
| "split_slash (c # cs) =
     (if c = CHR ''/'' then [] # split_slash cs
      else (case split_slash cs of x # xs \<Rightarrow> (c # x) # xs | [] \<Rightarrow> [[c]]))"

text \<open>
  \<^verbatim>\<open>bridge_plugins / name\<close> on POSIX: an absolute query replaces the path; empty
  components and \<^verbatim>\<open>.\<close> are dropped, \<^verbatim>\<open>..\<close> is kept.
\<close>

definition posix_locate :: "string \<Rightarrow> target" where
  "posix_locate name =
     (if startswith name ''/'' then Elsewhere
      else (case filter (\<lambda>c. c \<noteq> [] \<and> c \<noteq> ''.'') (split_slash name) of
              [] \<Rightarrow> Here
            | [c] \<Rightarrow> if c = ''..'' then Elsewhere else Entry c
            | _ \<Rightarrow> Elsewhere))"

text \<open>
  A case-sensitive POSIX file system with names of up to 255 characters on which
  nothing is denied; no query that leads out of the directory finds anything, and no
  path of the examples passes through a link.
\<close>

definition posix :: env where
  "posix = \<lparr>name_key = (\<lambda>n. n), name_max = 255,
     create_denied = (\<lambda>d n. None), remove_denied = (\<lambda>d n. None),
     locate = posix_locate, beyond = (\<lambda>n. Inr False), resolve_path = (\<lambda>p. p)\<rparr>"

text \<open>Folding the letters A to Z to lower case.\<close>

definition lower_char :: "char \<Rightarrow> char" where
  "lower_char c =
     (case map_of (zip ''ABCDEFGHIJKLMNOPQRSTUVWXYZ'' ''abcdefghijklmnopqrstuvwxyz'') c of
        Some l \<Rightarrow> l | None \<Rightarrow> c)"

definition lower :: "string \<Rightarrow> string" where
  "lower s = map lower_char s"

text \<open>The same with a file system that ignores case in names.\<close>

definition nocase :: env where
  "nocase = posix\<lparr>name_key := lower\<rparr>"



text \<open>A state without marketplace that still holds a link from an earlier run.\<close>

definition fs_stale :: fs where
  "fs_stale = \<lparr>home = [''home''], platform_system = ''Linux'', marketplace = Absent,
     bridge_plugins = Directory [(''mkt1__gone'', Symlink [''old''] None)],
     global_workflows = Absent, environment = posix\<rparr>"

text \<open>
  A bridge directory holding a real directory with content, a link and a junction to a plugin.
\<close>

definition w_real_dir :: world where
  "w_real_dir = \<lparr>bridge = [(''keep'', Dir [(''data.txt'', File)]),
                              (''lnk'', Symlink [''src''] (Some (Dir [(''x'', File)]))),
                              (''jn'', Junction [''src''] (Some (Dir [(''x'', File)])))],
     workflows = [], out = [], raised = None, os = posix\<rparr>"

text \<open>
  The destination of the resolver scenario: two plugins named \<^verbatim>\<open>x\<close> of
  two marketplaces.
\<close>

definition es_ab :: listing where
  "es_ab = [(''alpha__x'', Symlink [''m'', ''alpha'', ''x''] (Some (Dir []))),
            (''beta__x'', Symlink [''m'', ''beta'', ''x''] (Some (Dir [])))]"

text \<open>A destination with a dangling link named exactly as the query.\<close>

definition es_dangling :: listing where
  "es_dangling = [(''x'', Symlink [''gone''] None), (''beta__x'', Symlink [''m'', ''beta'', ''x''] (Some (Dir [])))]"

text \<open>
  A plugin whose commands directory enumerates \<^verbatim>\<open>b.md\<close> before
  \<^verbatim>\<open>a.md\<close>.
\<close>

definition fs_unsorted :: fs where
  "fs_unsorted = \<lparr>home = [''home''], platform_system = ''Linux'',
     marketplace = Directory [(''m'', Dir [(''p'', Dir [(''commands'', Dir [(''b.md'', File), (''a.md'', File)])])])],
     bridge_plugins = Absent, global_workflows = Absent, environment = posix\<rparr>"

text \<open>
  A marketplace with one plugin and a directory that is none; the bridge directory holds a link
  of a plugin that is gone and a stray file.
\<close>

definition fs_converge :: fs where
  "fs_converge = \<lparr>home = [''home''], platform_system = ''Linux'',
     marketplace = Directory
       [(''mkt1'', Dir [(''demo'', Dir [(''plugin.json'', File)]), (''notes'', Dir [])])],
     bridge_plugins = Directory [(''mkt1__gone'', Symlink [''old''] None), (''stray.txt'', File)],
     global_workflows = Absent, environment = posix\<rparr>"

text \<open>
  A marketplace renamed from \<^verbatim>\<open>mkt\<close> to \<^verbatim>\<open>Mkt\<close> on a file system that ignores case;
  the bridge directory still holds the link made under the old name.
\<close>

definition fs_renamed :: fs where
  "fs_renamed = \<lparr>home = [''home''], platform_system = ''Windows'',
     marketplace = Directory [(''Mkt'', Dir [(''demo'', Dir [(''plugin.json'', File)])])],
     bridge_plugins = Directory
       [(''mkt__demo'', Junction [''home'', ''.claude'', ''plugins'', ''marketplaces'', ''mkt'', ''demo'']
                         (Some (Dir [(''plugin.json'', File)])))],
     global_workflows = Directory [], environment = nocase\<rparr>"


text \<open>
  Windows, and a commands directory holding a directory named
  \<^verbatim>\<open>notes.md\<close>: no hard link to it can be made.
\<close>

definition fs_win_dir_md :: fs where
  "fs_win_dir_md = \<lparr>home = [''home''], platform_system = ''Windows'',
     marketplace = Directory
       [(''mkt1'', Dir [(''demo'', Dir [(''commands'', Dir [(''notes.md'', Dir [])])])])],
     bridge_plugins = Absent, global_workflows = Absent, environment = posix\<rparr>"






section \<open>Basic facts about paths and listings\<close>

lemma is_dir_Some_cases:
  "is_dir (Some File) = False" "is_dir (Some (Dir cs)) = True" "is_dir (Some Special) = False"
  by (simp_all add: is_dir_def)

lemma is_file_Some_cases:
  "is_file (Some File) = True" "is_file (Some (Dir cs)) = False" "is_file (Some Special) = False"
  by (simp_all add: is_file_def)

lemma is_symlink_Some_cases:
  "is_symlink (Some File) = False" "is_symlink (Some (Dir cs)) = False"
  "is_symlink (Some (Symlink p t)) = True" "is_symlink (Some (Junction p t)) = False"
  "is_symlink (Some Special) = False" "is_symlink None = False"
  by (simp_all add: is_symlink_def)


lemma names_snoc: "names (es @ [(n, x)]) = insert n (names es)"
  by (auto simp: names_def)

lemma names_filter_subset: "names (filter P es) \<subseteq> names es"
  by (auto simp: names_def)

lemma names_filter_keep:
  "n \<in> names es \<Longrightarrow> P n \<Longrightarrow> n \<in> names (filter (\<lambda>x. P (fst x)) es)"
  by (auto simp: names_def)

lemma map_of_filter_fst:
  "map_of (filter (\<lambda>x. P (fst x)) es) n = (if P n then map_of es n else None)"
  by (induction es) auto

lemma map_of_names: "map_of es n = None \<longleftrightarrow> n \<notin> names es"
  by (simp add: names_def map_of_eq_None_iff)

text \<open>The entry a name addresses.\<close>

lemma lookup_exact: "n \<in> names es \<Longrightarrow> lookup e es n = map_of es n"
proof -
  assume "n \<in> names es"
  then obtain x where "map_of es n = Some x"
    using map_of_names [of es n] by auto
  then show ?thesis by (simp add: lookup_def)
qed

lemma lookup_None: "lookup e es n = None \<longleftrightarrow> name_key e n \<notin> name_key e ` names es"
proof -
  have k: "fst ` set (map (\<lambda>x. (name_key e (fst x), snd x)) es) = name_key e ` names es"
    by (force simp: names_def)
  have m: "map_of (map (\<lambda>x. (name_key e (fst x), snd x)) es) (name_key e n) = None
           \<longleftrightarrow> name_key e n \<notin> name_key e ` names es"
    unfolding map_of_eq_None_iff k ..
  show ?thesis
  proof (cases "map_of es n")
    case None
    then have "lookup e es n = map_of (map (\<lambda>x. (name_key e (fst x), snd x)) es) (name_key e n)"
      by (simp add: lookup_def)
    with m show ?thesis by simp
  next
    case (Some x)
    then have "n \<in> names es" using map_of_names [of es n] by simp
    with Some show ?thesis by (auto simp: lookup_def)
  qed
qed

lemma lookup_None_names: "lookup e es n = None \<Longrightarrow> n \<notin> names es"
  by (auto simp: lookup_None)

lemma lookup_identity: "name_key e = (\<lambda>n. n) \<Longrightarrow> lookup e es n = map_of es n"
proof -
  assume a: "name_key e = (\<lambda>n. n)"
  have "map (\<lambda>x. (name_key e (fst x), snd x)) es = es"
    unfolding a by (simp add: map_idI)
  moreover have "name_key e n = n" unfolding a ..
  ultimately have "lookup e es n = (case map_of es n of Some x \<Rightarrow> Some x | None \<Rightarrow> map_of es n)"
    by (simp only: lookup_def)
  then show ?thesis by (simp split: option.splits)
qed

lemma lookup_snoc:
  assumes "lookup e es n' = None"
  shows "lookup e (es @ [(n', x)]) m =
           (case lookup e es m of
              Some y \<Rightarrow> Some y
            | None \<Rightarrow> if name_key e m = name_key e n' then Some x else None)"
proof (cases "lookup e es m")
  case None
  then have "map_of es m = None"
    "map_of (map (\<lambda>x. (name_key e (fst x), snd x)) es) (name_key e m) = None"
    by (auto simp: lookup_def split: option.splits)
  with None show ?thesis
    by (auto simp: lookup_def map_add_def split: option.splits)
next
  case (Some y)
  show ?thesis
  proof (cases "map_of es m")
    case None
    from lookup_None_names [OF assms] have "m \<noteq> n' \<or> m \<notin> names es"
      using None by (simp add: map_of_names)
    moreover from Some assms have "m \<noteq> n'" by auto
    ultimately show ?thesis using None Some
      by (auto simp: lookup_def map_add_def split: option.splits)
  next
    case (Some z)
    with \<open>lookup e es m = Some y\<close> show ?thesis
      by (auto simp: lookup_def map_add_def split: option.splits)
  qed
qed

lemma lookup_filter:
  assumes "\<forall>x \<in> set es. \<not> P (fst x) \<longrightarrow> name_key e (fst x) \<noteq> name_key e n"
  shows "lookup e (filter (\<lambda>x. P (fst x)) es) n = lookup e es n"
proof -
  have a: "map_of (filter (\<lambda>x. P (fst x)) es) n = map_of es n"
    using assms by (induction es) auto
  have b: "map_of (map (\<lambda>x. (name_key e (fst x), snd x)) (filter (\<lambda>x. P (fst x)) es)) (name_key e n)
         = map_of (map (\<lambda>x. (name_key e (fst x), snd x)) es) (name_key e n)"
    using assms by (induction es) auto
  show ?thesis by (simp only: lookup_def a b)
qed

lemma remove_entry_exact:
  "n \<in> names es \<Longrightarrow> remove_entry e n es = filter (\<lambda>x. fst x \<noteq> n) es"
  by (simp add: remove_entry_def)

lemma names_remove_entry: "n \<notin> names (remove_entry e n es)"
  by (auto simp: names_def remove_entry_def)

lemma lookup_remove_entry: "lookup e es n \<noteq> None \<Longrightarrow> remove_entry e n es \<noteq> es"
proof -
  assume "lookup e es n \<noteq> None"
  then obtain x where x: "x \<in> set es" "name_key e (fst x) = name_key e n"
    by (auto simp: lookup_None names_def)
  show ?thesis
  proof (cases "n \<in> names es")
    case True
    then obtain y where "y \<in> set es" "fst y = n" by (auto simp: names_def)
    then have "y \<notin> set (remove_entry e n es)" by (simp add: remove_entry_def)
    with \<open>y \<in> set es\<close> show ?thesis by auto
  next
    case False
    with x have "x \<notin> set (remove_entry e n es)" by (simp add: remove_entry_def)
    with x(1) show ?thesis by auto
  qed
qed

lemma sorted_entries_set [simp]: "set (sorted_entries es) = set es"
  by (simp add: sorted_entries_def)

lemma get_set_dir [simp]: "get_dir d (set_dir d es w) = es"
  by (cases d) (simp_all add: get_dir_def set_dir_def)

lemma get_dir_print [simp]: "get_dir d (print m w) = get_dir d w"
  by (cases d) (simp_all add: get_dir_def print_def)

lemma get_dir_out_update [simp]: "get_dir d (w\<lparr>out := ms\<rparr>) = get_dir d w"
  by (cases d) (simp_all add: get_dir_def)

lemma get_dir_raised_update [simp]: "get_dir d (w\<lparr>raised := r\<rparr>) = get_dir d w"
  by (cases d) (simp_all add: get_dir_def)

lemma out_set_dir [simp]: "out (set_dir d es w) = out w"
  by (cases d) (simp_all add: set_dir_def)

lemma raised_set_dir [simp]: "raised (set_dir d es w) = raised w"
  by (cases d) (simp_all add: set_dir_def)

lemma raised_print [simp]: "raised (print m w) = raised w"
  by (simp add: print_def)

lemma os_set_dir [simp]: "os (set_dir d es w) = os w"
  by (cases d) (simp_all add: set_dir_def)

lemma os_print [simp]: "os (print m w) = os w"
  by (simp add: print_def)

lemma out_print [simp]: "out (print m w) = out w @ [m]"
  by (simp add: print_def)

lemma get_other_set_dir: "d' \<noteq> d \<Longrightarrow> get_dir d' (set_dir d es w) = get_dir d' w"
  by (cases d; cases d') (simp_all add: get_dir_def set_dir_def)

lemma bridge_get_dir: "bridge w = get_dir BridgePlugins w"
  by (simp add: get_dir_def)

lemma workflows_get_dir: "workflows w = get_dir GlobalWorkflows w"
  by (simp add: get_dir_def)

lemma at_dest_print [simp]: "at_dest dst (print m w) = at_dest dst w"
  by (simp add: at_dest_def)

section \<open>The classifier\<close>

text \<open>
  Claim C4.  \<^verbatim>\<open>is_plugin_dir\<close> rejects a directory whose base name starts with a dot or is
  in the exclusion set, whatever it contains; otherwise it accepts exactly when one of
  \<^verbatim>\<open>plugin.json\<close>, \<^verbatim>\<open>skills\<close>, \<^verbatim>\<open>hooks\<close>, \<^verbatim>\<open>agents\<close>, \<^verbatim>\<open>commands\<close>, \<^verbatim>\<open>README.md\<close>
  exists (in the sense of \<^verbatim>\<open>Path.exists\<close>) directly inside the directory.
\<close>

theorem is_plugin_dir_classifier:
  "(startswith name ''.'' \<or> name \<in> EXCLUDE_NAMES \<longrightarrow> \<not> is_plugin_dir name n) \<and>
   (\<not> startswith name ''.'' \<and> name \<notin> EXCLUDE_NAMES \<longrightarrow>
      is_plugin_dir name n =
        (exists_path (child (Some n) ''plugin.json'') \<or> exists_path (child (Some n) ''skills'') \<or>
         exists_path (child (Some n) ''hooks'') \<or> exists_path (child (Some n) ''agents'') \<or>
         exists_path (child (Some n) ''commands'') \<or> exists_path (child (Some n) ''README.md'')))"
  by (simp add: is_plugin_dir_def PLUGIN_INDICATORS_def)

theorem is_plugin_dir_classifier_witness:
  "is_plugin_dir ''demo'' (Dir [(''plugin.json'', File)]) \<and>
   \<not> is_plugin_dir ''demo'' (Dir [(''.git'', Dir [])]) \<and>
   \<not> is_plugin_dir ''tests'' (Dir [(''plugin.json'', File)]) \<and>
   \<not> is_plugin_dir ''.hidden'' (Dir [(''plugin.json'', File)])"
  using is_plugin_dir_classifier [of "''demo''" "Dir [(''plugin.json'', File)]"]
    is_plugin_dir_classifier [of "''demo''" "Dir [(''.git'', Dir [])]"]
    is_plugin_dir_classifier [of "''tests''" "Dir [(''plugin.json'', File)]"]
    is_plugin_dir_classifier [of "''.hidden''" "Dir [(''plugin.json'', File)]"]
  by (simp add: startswith_def EXCLUDE_NAMES_def exists_path_def child_def)

section \<open>The link primitives\<close>

lemma remove_link_result:
  assumes "at_dest dst w = Some n"
  shows "remove_link dst iw w =
           (if removable iw (os w) (fst dst) (snd dst) n
            then (True, set_dir (fst dst) (remove_entry (os w) (snd dst) (get_dir (fst dst) w)) w)
            else (False, print (MsgFailedRemove (remove_error (os w) (fst dst) (snd dst) n)) w))"
proof -
  have m: "lookup (os w) (get_dir (fst dst) w) (snd dst) = Some n"
    using assms by (simp add: at_dest_def)
  show ?thesis
  proof (cases n)
    case File
    then show ?thesis using m assms
      by (simp add: remove_link_def os_unlink_def os_rmdir_def removable_def remove_error_def
          is_dir_Some_cases is_file_Some_cases is_symlink_Some_cases split: option.splits)
  next
    case (Dir cs)
    then show ?thesis using m assms
      by (simp add: remove_link_def os_unlink_def os_rmdir_def removable_def remove_error_def
          is_dir_Some_cases is_file_Some_cases is_symlink_Some_cases split: option.splits)
  next
    case (Symlink p t)
    then show ?thesis using m assms
      by (simp add: remove_link_def os_unlink_def os_rmdir_def removable_def remove_error_def
          is_symlink_Some_cases split: option.splits)
  next
    case (Junction p t)
    then show ?thesis using m assms
      by (auto simp add: remove_link_def os_unlink_def os_rmdir_def removable_def remove_error_def
          is_symlink_Some_cases split: option.splits)
  next
    case Special
    then show ?thesis using m assms
      by (simp add: remove_link_def os_unlink_def os_rmdir_def removable_def remove_error_def
          is_dir_Some_cases is_file_Some_cases is_symlink_Some_cases split: option.splits)
  qed
qed

lemma remove_link_missing:
  assumes "at_dest dst w = None"
  shows "remove_link dst iw w = (False, print (MsgFailedRemove (missing (os w) (snd dst))) w)"
  using assms
  by (simp add: remove_link_def at_dest_def os_unlink_def os_rmdir_def is_dir_def is_file_def
      is_symlink_def)

text \<open>
  Claim C8.  \<^verbatim>\<open>remove_link\<close> on a real directory that has entries fails: it returns
  \<open>False\<close>, reports the error and leaves both destination directories as they were
  (nothing is deleted recursively), on either platform and whatever the system allows.
  On a file, an empty directory, a symbolic link or (on Windows) a junction whose
  removal the system does not deny it removes exactly that entry, whatever the link
  points to.
\<close>

theorem remove_link_safety:
  assumes "at_dest dst w = Some n"
  shows "(\<forall>c cs. n = Dir (c # cs) \<longrightarrow>
            remove_link dst iw w =
              (False, print (MsgFailedRemove
                 (case remove_denied (os w) (fst dst) (snd dst) of
                    Some err \<Rightarrow> err | None \<Rightarrow> DirectoryNotEmpty)) w) \<and>
            bridge (snd (remove_link dst iw w)) = bridge w \<and>
            workflows (snd (remove_link dst iw w)) = workflows w) \<and>
         (remove_denied (os w) (fst dst) (snd dst) = None \<and>
          (n = File \<or> n = Dir [] \<or> (\<exists>p t. n = Symlink p t) \<or> (iw \<and> (\<exists>p t. n = Junction p t))) \<longrightarrow>
            remove_link dst iw w =
              (True, set_dir (fst dst) (remove_entry (os w) (snd dst) (get_dir (fst dst) w)) w))"
  using remove_link_result [OF assms, of iw]
  by (auto simp: removable_def remove_error_def print_def split: option.splits)

theorem remove_link_safety_witness:
  "remove_link (BridgePlugins, ''keep'') False w_real_dir
     = (False, w_real_dir\<lparr>out := [MsgFailedRemove DirectoryNotEmpty]\<rparr>) \<and>
   remove_link (BridgePlugins, ''keep'') True w_real_dir
     = (False, w_real_dir\<lparr>out := [MsgFailedRemove DirectoryNotEmpty]\<rparr>) \<and>
   remove_link (BridgePlugins, ''lnk'') False w_real_dir
     = (True, w_real_dir\<lparr>bridge := [(''keep'', Dir [(''data.txt'', File)]),
                                        (''jn'', Junction [''src''] (Some (Dir [(''x'', File)])))]\<rparr>) \<and>
   remove_link (BridgePlugins, ''jn'') True w_real_dir
     = (True, w_real_dir\<lparr>bridge := [(''keep'', Dir [(''data.txt'', File)]),
                                        (''lnk'', Symlink [''src''] (Some (Dir [(''x'', File)])))]\<rparr>)"
proof -
  have k: "at_dest (BridgePlugins, ''keep'') w_real_dir = Some (Dir [(''data.txt'', File)])"
    by (simp add: at_dest_def get_dir_def w_real_dir_def lookup_def)
  have l: "at_dest (BridgePlugins, ''lnk'') w_real_dir = Some (Symlink [''src''] (Some (Dir [(''x'', File)])))"
    by (simp add: at_dest_def get_dir_def w_real_dir_def lookup_def)
  have j: "at_dest (BridgePlugins, ''jn'') w_real_dir = Some (Junction [''src''] (Some (Dir [(''x'', File)])))"
    by (simp add: at_dest_def get_dir_def w_real_dir_def lookup_def)
  show ?thesis
    using remove_link_safety [OF k, of False] remove_link_safety [OF k, of True]
      remove_link_safety [OF l, of False] remove_link_safety [OF j, of True]
    by (simp add: print_def w_real_dir_def set_dir_def get_dir_def remove_entry_def names_def
        posix_def)
qed

section \<open>The resolver\<close>

lemma two_matches_long:
  assumes "(a, x) \<in> set xs" "(b, y) \<in> set xs" "a \<noteq> b"
  shows "length xs > 1"
proof (cases xs)
  case Nil
  then show ?thesis using assms by simp
next
  case (Cons e rest)
  then show ?thesis using assms by (cases rest) auto
qed

text \<open>
  Claim C10.  A dangling symbolic link named exactly as the query does not exist for
  \<^verbatim>\<open>Path.exists\<close>, so \<^verbatim>\<open>resolve_plugin\<close> goes on to the substring search; the link
  is among the matches there (the search never ends in \<open>NotFound\<close>), and any other
  entry whose name contains the query makes the call fail as \<open>Ambiguous\<close>.
\<close>

theorem resolve_plugin_dangling_exact:
  assumes "name \<noteq> []" "name \<noteq> ''.''" "name \<noteq> ''..''"
    and "map_of es name = Some (Symlink p t)" and "deref (Symlink p t) = None"
  shows "\<not> exists_path (map_of es name) \<and>
         resolve_plugin e bp (Directory es) name = resolve_candidates e bp (Directory es) name \<and>
         (name, Symlink p t) \<in> set (matches name es) \<and>
         resolve_plugin e bp (Directory es) name \<noteq> Inl NotFound \<and>
         (\<forall>other n. (other, n) \<in> set es \<and> other \<noteq> name \<and> sublist name other \<longrightarrow>
            resolve_plugin e bp (Directory es) name = Inl (Ambiguous (map fst (matches name es))))"
proof -
  have ne: "\<not> exists_path (map_of es name)"
    using assms(4,5) by (simp add: exists_path_def)
  have eq: "resolve_plugin e bp (Directory es) name = resolve_candidates e bp (Directory es) name"
    using assms by (simp add: resolve_plugin_def exact_exists_def exists_path_def)
  have mem: "(name, Symlink p t) \<in> set (matches name es)"
    using map_of_SomeD [OF assms(4)] by simp
  have nf: "resolve_candidates e bp (Directory es) name \<noteq> Inl NotFound"
  proof -
    from length_pos_if_in_set [OF mem]
    have "length (matches name es) = 1 \<or> length (matches name es) > 1"
      by linarith
    then show ?thesis
      by (auto simp: resolve_candidates_def root_iterdir_def Let_def)
  qed
  have amb: "resolve_candidates e bp (Directory es) name = Inl (Ambiguous (map fst (matches name es)))"
    if "(other, n) \<in> set es" "other \<noteq> name" "sublist name other" for other n
  proof -
    from that have "(other, n) \<in> set (matches name es)" by simp
    from two_matches_long [OF mem this] that(2) have "length (matches name es) > 1" by simp
    then show ?thesis by (simp add: resolve_candidates_def root_iterdir_def Let_def)
  qed
  show ?thesis using ne eq mem nf amb by auto
qed

theorem resolve_plugin_dangling_exact_witness:
  "map_of es_dangling ''x'' = Some (Symlink [''gone''] None) \<and>
   resolve_plugin posix [''b''] (Directory es_dangling) ''x'' = Inl (Ambiguous [''x'', ''beta__x''])"
proof -
  have m: "map_of es_dangling ''x'' = Some (Symlink [''gone''] None)"
    by (simp add: es_dangling_def)
  have d: "deref (Symlink [''gone''] None) = None" by simp
  have o: "(''beta__x'', Symlink [''m'', ''beta'', ''x''] (Some (Dir []))) \<in> set es_dangling"
    by (simp add: es_dangling_def)
  have s: "sublist ''x'' ''beta__x''" by code_simp
  from resolve_plugin_dangling_exact [OF _ _ _ m d, of posix "[''b'']"] o s m
  have "resolve_plugin posix [''b''] (Directory es_dangling) ''x'' = Inl (Ambiguous (map fst (matches ''x'' es_dangling)))"
    by fastforce
  then show ?thesis using m by (simp add: es_dangling_def sublist_code prefix_code)
qed

section \<open>Sync without a marketplace\<close>

text \<open>
  Claim C9.  When the marketplace root does not exist, \<^verbatim>\<open>cmd_sync\<close> prints its notice and
  returns with the file system exactly as it was: no destination directory is created,
  nothing is linked and nothing is removed, so links of earlier runs stay.
\<close>

theorem sync_without_marketplace:
  "\<not> root_exists (marketplace f) \<Longrightarrow>
   cmd_sync f = (Skipped, f, [MsgHeader, MsgMarketplaceNotFound])"
  by (simp add: cmd_sync_def)

theorem sync_without_marketplace_witness:
  "\<not> root_exists (marketplace fs_stale) \<and>
   cmd_sync fs_stale = (Skipped, fs_stale, [MsgHeader, MsgMarketplaceNotFound]) \<and>
   bridge_plugins (fst (snd (cmd_sync fs_stale))) =
     Directory [(''mkt1__gone'', Symlink [''old''] None)] \<and>
   global_workflows (fst (snd (cmd_sync fs_stale))) = Absent"
proof -
  have h: "\<not> root_exists (marketplace fs_stale)"
    by (simp add: fs_stale_def root_exists_def)
  from sync_without_marketplace [OF h] h show ?thesis
    by (simp add: fs_stale_def)
qed

section \<open>Order of the scan\<close>

text \<open>
  Claim C5.  The command files of a plugin are taken in the order of \<^verbatim>\<open>glob\<close>, not
  sorted: with a commands directory that enumerates \<^verbatim>\<open>b.md\<close> before \<^verbatim>\<open>a.md\<close> the
  workflow candidates come out in that order.
\<close>

theorem sync_command_files_unsorted:
  "(case fst (cmd_sync fs_unsorted) of Done l \<Rightarrow> valid_workflow_names l | _ \<Rightarrow> [])
     = [''cb__m__p__b.md'', ''cb__m__p__a.md''] \<and>
   \<not> sorted [''cb__m__p__b.md'', ''cb__m__p__a.md''] \<and> \<not> sorted [''b.md'', ''a.md'']"
  by code_simp

section \<open>The main loop is a fold over the scan\<close>

lemma foldl_concat_map:
  assumes "\<And>s x. f s x = foldl g s (h x)"
  shows "foldl f s xs = foldl g s (concat (map h xs))"
  by (induction xs arbitrary: s) (simp_all add: assms)

lemma foldl_map_action:
  assumes "\<And>s x. f s x = g s (h x)"
  shows "foldl f s xs = foldl g s (map h xs)"
  by (induction xs arbitrary: s) (simp_all add: assms)

text \<open>After an exception nothing is executed.\<close>

lemma action_raised: "raised (fst s) \<noteq> None \<Longrightarrow> apply_action iw s a = s"
  by (cases a) (simp_all add: apply_action_def link_plugin_def cmd_step_def)

lemma run_raised: "raised (fst s) \<noteq> None \<Longrightarrow> run iw s as = s"
  by (induction as) (simp_all add: action_raised)

lemma plugin_step_scan:
  "plugin_step iw mp base s pd = foldl (apply_action iw) s (scan_plugin mp base pd)"
proof (cases "raised (fst s) = None")
  case False
  then show ?thesis by (simp add: plugin_step_def run_raised)
next
  case True
  have w: "foldl (cmd_step iw mp (fst pd) cdir) s1 fs
         = foldl (apply_action iw) s1 (map (LinkWorkflow mp (fst pd) cdir) fs)" for cdir s1 fs
    by (rule foldl_map_action) (simp add: apply_action_def)
  show ?thesis using True
    by (simp add: plugin_step_def scan_plugin_def Let_def w apply_action_def)
qed

lemma mp_step_scan:
  "mp_step iw mpath s md = foldl (apply_action iw) s (scan_marketplace mpath md)"
proof (cases "raised (fst s) = None")
  case False
  then show ?thesis by (simp add: mp_step_def run_raised)
next
  case True
  have p: "foldl (plugin_step iw mp base) s1 pds
         = foldl (apply_action iw) s1 (concat (map (scan_plugin mp base) pds))" for mp base s1 pds
    by (rule foldl_concat_map) (rule plugin_step_scan)
  show ?thesis using True
    by (simp add: mp_step_def scan_marketplace_def Let_def p apply_action_def)
qed

lemma main_loop_scan:
  "foldl (mp_step iw mpath) s (sorted_entries ms) = foldl (apply_action iw) s (scan mpath ms)"
  unfolding scan_def by (rule foldl_concat_map) (rule mp_step_scan)

lemma scan_wf: "\<forall>a \<in> set (scan mp ms). wf_action a"
  by (auto simp: scan_def scan_marketplace_def scan_plugin_def wf_action_def Let_def
      split: if_splits)

lemma plugin_ids_Cons: "plugin_ids (a # as) = plugin_ids [a] @ plugin_ids as"
  by (cases a) simp_all

lemma workflow_ids_Cons: "workflow_ids (a # as) = workflow_ids [a] @ workflow_ids as"
  by (cases a) simp_all

lemma plugin_ids_append: "plugin_ids (xs @ ys) = plugin_ids xs @ plugin_ids ys"
proof (induction xs)
  case Nil
  then show ?case by simp
next
  case (Cons a xs)
  then show ?case by (cases a) simp_all
qed

lemma workflow_ids_append: "workflow_ids (xs @ ys) = workflow_ids xs @ workflow_ids ys"
proof (induction xs)
  case Nil
  then show ?case by simp
next
  case (Cons a xs)
  then show ?case by (cases a) simp_all
qed

lemma plugin_ids_concat: "plugin_ids (concat xss) = concat (map plugin_ids xss)"
  by (induction xss) (simp_all add: plugin_ids_append)

lemma plugin_ids_workflows: "plugin_ids (map (LinkWorkflow mp pn cdir) fs) = []"
  by (induction fs) simp_all

lemma plugin_ids_member:
  "LinkPlugin mp base pd \<in> set as \<Longrightarrow> mp @ ''__'' @ fst pd \<in> set (plugin_ids as)"
proof (induction as)
  case Nil
  then show ?case by simp
next
  case (Cons a as)
  then show ?case by (cases a) auto
qed

lemma workflow_ids_member:
  "LinkWorkflow mp pn cdir cf \<in> set as \<Longrightarrow>
   ''cb__'' @ mp @ ''__'' @ pn @ ''__'' @ fst cf \<in> set (workflow_ids as)"
proof (induction as)
  case Nil
  then show ?case by simp
next
  case (Cons a as)
  then show ?case by (cases a) auto
qed

section \<open>What one action does\<close>

lemma present_cases:
  "present (d, name) w =
     (if lookup (os w) (get_dir d w) name = None \<and> too_long (os w) name then Inl NameTooLong
      else Inr (present_in (os w) (get_dir d w) name))"
  by (simp add: present_def at_dest_def present_in_def exists_path_def is_symlink_def
      split: option.splits)

lemma present_in_lookup: "present_in e es n \<Longrightarrow> lookup e es n \<noteq> None"
  by (auto simp: present_in_def exists_path_def is_symlink_def split: option.splits)

lemma link_plugin_cases:
  "link_plugin iw mp base s pd =
     (let name = mp @ ''__'' @ fst pd; e = os (fst s);
          l1 = (snd s)\<lparr>valid_plugin_names := valid_plugin_names (snd s) @ [name]\<rparr>
      in if raised (fst s) \<noteq> None then s
         else if lookup e (bridge (fst s)) name = None \<and> too_long e name
         then ((fst s)\<lparr>raised := Some NameTooLong\<rparr>, l1)
         else if present_in e (bridge (fst s)) name
         then (fst s, l1\<lparr>plugins_skipped := plugins_skipped (snd s) + 1\<rparr>)
         else if lookup e (bridge (fst s)) name \<noteq> None \<or> create_denied e BridgePlugins name \<noteq> None
         then ((fst s)\<lparr>out := out (fst s) @
                  [MsgLinkPlugin (fst pd),
                   MsgFailedLinkDir
                     (if iw then CalledProcessError
                      else if lookup e (bridge (fst s)) name \<noteq> None then FileExistsError
                      else the (create_denied e BridgePlugins name))]\<rparr>, l1)
         else ((fst s)\<lparr>bridge := bridge (fst s) @ [(name, dir_link_node iw (base @ [fst pd]) (snd pd))],
                        out := out (fst s) @ [MsgLinkPlugin (fst pd)]\<rparr>,
               l1\<lparr>plugins_linked := plugins_linked (snd s) + 1\<rparr>))"
  by (auto simp: link_plugin_def Let_def present_cases get_dir_def create_link_def mklink_J_def
      os_symlink_def set_dir_def print_def dir_link_node_def)

lemma cmd_step_cases:
  "cmd_step iw mp pn cdir s cf =
     (let name = ''cb__'' @ mp @ ''__'' @ pn @ ''__'' @ fst cf; e = os (fst s);
          l1 = (snd s)\<lparr>valid_workflow_names := valid_workflow_names (snd s) @ [name]\<rparr>
      in if raised (fst s) \<noteq> None then s
         else if lookup e (workflows (fst s)) name = None \<and> too_long e name
         then ((fst s)\<lparr>raised := Some NameTooLong\<rparr>, l1)
         else if present_in e (workflows (fst s)) name
         then (fst s, l1\<lparr>workflows_skipped := workflows_skipped (snd s) + 1\<rparr>)
         else if lookup e (workflows (fst s)) name \<noteq> None
                 \<or> create_denied e GlobalWorkflows name \<noteq> None
                 \<or> (iw \<and> \<not> is_file (Some (snd cf)))
         then ((fst s)\<lparr>out := out (fst s) @
                  [MsgLinkWorkflow (fst cf) name,
                   MsgFailedLinkFile
                     (if iw then CalledProcessError
                      else if lookup e (workflows (fst s)) name \<noteq> None then FileExistsError
                      else the (create_denied e GlobalWorkflows name))]\<rparr>, l1)
         else ((fst s)\<lparr>workflows := workflows (fst s) @
                           [(name, if iw then File else Symlink (cdir @ [fst cf]) (Some (snd cf)))],
                        out := out (fst s) @ [MsgLinkWorkflow (fst cf) name]\<rparr>,
               l1\<lparr>workflows_linked := workflows_linked (snd s) + 1\<rparr>))"
  by (auto simp: cmd_step_def Let_def present_cases get_dir_def create_file_link_def mklink_H_def
      os_symlink_def set_dir_def print_def)

lemma kext_refl: "kext e es es"
  by (simp add: kext_def)

lemma kext_trans: "kext e es es' \<Longrightarrow> kext e es' es'' \<Longrightarrow> kext e es es''"
  by (auto simp: kext_def)

lemma kext_snoc: "lookup e es n = None \<Longrightarrow> kext e es (es @ [(n, x)])"
  by (auto simp: kext_def lookup_snoc)

lemma kext_lookup: "kext e es es' \<Longrightarrow> lookup e es m \<noteq> None \<Longrightarrow> lookup e es' m = lookup e es m"
  by (simp add: kext_def)


lemma present_in_kext: "kext e es es' \<Longrightarrow> present_in e es n \<Longrightarrow> present_in e es' n"
  using kext_lookup [of e es es' n] present_in_lookup [of e es n]
  by (simp add: present_in_def)

lemma present_in_new_link:
  "lookup e es n = None \<Longrightarrow> present_in e (es @ [(n, Symlink p t)]) n"
  by (simp add: present_in_def lookup_snoc is_symlink_def)

lemma present_in_new_existing:
  "lookup e es n = None \<Longrightarrow> deref nd \<noteq> None \<Longrightarrow> present_in e (es @ [(n, nd)]) n"
  by (simp add: present_in_def lookup_snoc exists_path_def)

lemma action_os: "os (fst (apply_action iw s a)) = os (fst s)"
  by (cases a) (simp_all add: apply_action_def link_plugin_cases cmd_step_cases Let_def print_def)

lemma action_valid:
  "raised (fst s) = None \<Longrightarrow>
   valid_plugin_names (snd (apply_action iw s a)) = valid_plugin_names (snd s) @ plugin_ids [a] \<and>
   valid_workflow_names (snd (apply_action iw s a)) = valid_workflow_names (snd s) @ workflow_ids [a]"
  by (cases a) (simp_all add: apply_action_def link_plugin_cases cmd_step_cases Let_def)

lemma action_out_prefix: "prefix (out (fst s)) (out (fst (apply_action iw s a)))"
  by (cases a) (simp_all add: apply_action_def link_plugin_cases cmd_step_cases Let_def print_def)

lemma action_dirs_kext:
  "kext (os (fst s)) (bridge (fst s)) (bridge (fst (apply_action iw s a))) \<and>
   kext (os (fst s)) (workflows (fst s)) (workflows (fst (apply_action iw s a)))"
  by (cases a)
    (simp_all add: apply_action_def link_plugin_cases cmd_step_cases Let_def print_def kext_refl
      kext_snoc)

lemma action_names:
  "names (bridge (fst (apply_action iw s a))) \<subseteq> names (bridge (fst s)) \<union> set (plugin_ids [a]) \<and>
   names (workflows (fst (apply_action iw s a))) \<subseteq> names (workflows (fst s)) \<union> set (workflow_ids [a])"
  by (cases a) (auto simp: apply_action_def link_plugin_cases cmd_step_cases Let_def print_def names_def)

lemma action_distinct:
  "(distinct (map fst (bridge (fst s))) \<longrightarrow> distinct (map fst (bridge (fst (apply_action iw s a))))) \<and>
   (distinct (map fst (workflows (fst s))) \<longrightarrow>
      distinct (map fst (workflows (fst (apply_action iw s a)))))"
proof (cases a)
  case (Announce m)
  then show ?thesis by (simp add: apply_action_def print_def)
next
  case (LinkPlugin mp base pd)
  then show ?thesis
    using lookup_None_names [of "os (fst s)" "bridge (fst s)" "mp @ ''__'' @ fst pd"]
    by (simp add: apply_action_def link_plugin_cases Let_def names_def)
next
  case (LinkWorkflow mp pn cdir cf)
  then show ?thesis
    using lookup_None_names [of "os (fst s)" "workflows (fst s)"
        "''cb__'' @ mp @ ''__'' @ pn @ ''__'' @ fst cf"]
    by (simp add: apply_action_def cmd_step_cases Let_def names_def)
qed



lemma action_raised_mono:
  "raised (fst (apply_action iw s a)) = None \<Longrightarrow> raised (fst s) = None"
  using action_raised [of s iw a] by (cases "raised (fst s)") auto

lemma action_present:
  assumes "no_link_failure (out (fst (apply_action iw s a)))" "wf_action a"
    "raised (fst (apply_action iw s a)) = None"
  shows "(\<forall>n \<in> set (plugin_ids [a]).
            present_in (os (fst s)) (bridge (fst (apply_action iw s a))) n) \<and>
         (\<forall>n \<in> set (workflow_ids [a]).
            present_in (os (fst s)) (workflows (fst (apply_action iw s a))) n)"
proof (cases a)
  case (Announce m)
  then show ?thesis by simp
next
  case (LinkPlugin mp base pd)
  with assms(2) have "deref (snd pd) \<noteq> None"
    by (auto simp: wf_action_def is_dir_def split: option.splits)
  then have "deref (dir_link_node iw p (snd pd)) \<noteq> None" for p
    by (simp add: dir_link_node_def)
  with LinkPlugin assms(1,3) action_raised_mono [OF assms(3)] show ?thesis
    by (auto simp: apply_action_def link_plugin_cases Let_def no_link_failure_def
        is_link_failure_def present_in_new_existing split: if_splits)
next
  case (LinkWorkflow mp pn cdir cf)
  with assms(1,3) action_raised_mono [OF assms(3)] show ?thesis
    by (auto simp: apply_action_def cmd_step_cases Let_def no_link_failure_def
        is_link_failure_def present_in_new_existing present_in_new_link split: if_splits)
qed

lemma action_idle:
  assumes "raised (fst s) = None"
    "\<forall>n \<in> set (plugin_ids [a]). present_in (os (fst s)) (bridge (fst s)) n"
    "\<forall>n \<in> set (workflow_ids [a]). present_in (os (fst s)) (workflows (fst s)) n"
  shows "same_dirs (fst s) (fst (apply_action iw s a)) \<and>
     raised (fst (apply_action iw s a)) = None \<and>
     plugins_linked (snd (apply_action iw s a)) = plugins_linked (snd s) \<and>
     workflows_linked (snd (apply_action iw s a)) = workflows_linked (snd s) \<and>
     plugins_skipped (snd (apply_action iw s a)) = plugins_skipped (snd s) + length (plugin_ids [a]) \<and>
     workflows_skipped (snd (apply_action iw s a)) = workflows_skipped (snd s) + length (workflow_ids [a])"
proof (cases a)
  case (Announce m)
  with assms show ?thesis
    by (simp add: apply_action_def print_def same_dirs_def is_failure_def)
next
  case (LinkPlugin mp base pd)
  with assms show ?thesis
    using present_in_lookup [of "os (fst s)" "bridge (fst s)" "mp @ ''__'' @ fst pd"]
    by (simp add: apply_action_def link_plugin_cases Let_def same_dirs_def)
next
  case (LinkWorkflow mp pn cdir cf)
  with assms show ?thesis
    using present_in_lookup [of "os (fst s)" "workflows (fst s)"
        "''cb__'' @ mp @ ''__'' @ pn @ ''__'' @ fst cf"]
    by (simp add: apply_action_def cmd_step_cases Let_def same_dirs_def)
qed


lemma settled_action_mono:
  assumes "settled_action iw w a" "os w' = os w" "kext (os w) (bridge w) (bridge w')"
    "kext (os w) (workflows w) (workflows w')"
  shows "settled_action iw w' a"
proof (cases a)
  case (Announce m)
  then show ?thesis by (simp add: settled_action_def)
next
  case (LinkPlugin mp base pd)
  with assms(1,2) kext_lookup [OF assms(3), of "mp @ ''__'' @ fst pd"] show ?thesis
    by (auto simp: settled_action_def)
next
  case (LinkWorkflow mp pn cdir cf)
  with assms(1,2) kext_lookup [OF assms(4), of "''cb__'' @ mp @ ''__'' @ pn @ ''__'' @ fst cf"]
  show ?thesis
    by (auto simp: settled_action_def)
qed

lemma action_settles:
  "raised (fst (apply_action iw s a)) = None \<Longrightarrow> settled_action iw (fst (apply_action iw s a)) a"
proof (cases a)
  case (Announce m)
  then show ?thesis by (simp add: settled_action_def)
next
  case (LinkPlugin mp base pd)
  assume r: "raised (fst (apply_action iw s a)) = None"
  from LinkPlugin r action_raised_mono [OF r] show ?thesis
    using present_in_lookup [of "os (fst s)" "bridge (fst s)" "mp @ ''__'' @ fst pd"]
    by (auto simp: settled_action_def apply_action_def link_plugin_cases Let_def lookup_snoc
        split: if_splits)
next
  case (LinkWorkflow mp pn cdir cf)
  assume r: "raised (fst (apply_action iw s a)) = None"
  from LinkWorkflow r action_raised_mono [OF r] show ?thesis
    using present_in_lookup [of "os (fst s)" "workflows (fst s)"
        "''cb__'' @ mp @ ''__'' @ pn @ ''__'' @ fst cf"]
    by (auto simp: settled_action_def apply_action_def cmd_step_cases Let_def lookup_snoc
        split: if_splits)
qed

lemma action_settled_idle:
  assumes "settled_action iw (fst s) a" "raised (fst s) = None"
  shows "bridge (fst (apply_action iw s a)) = bridge (fst s) \<and>
         workflows (fst (apply_action iw s a)) = workflows (fst s) \<and>
         raised (fst (apply_action iw s a)) = None \<and>
         plugins_linked (snd (apply_action iw s a)) = plugins_linked (snd s) \<and>
         workflows_linked (snd (apply_action iw s a)) = workflows_linked (snd s)"
proof (cases a)
  case (Announce m)
  then show ?thesis using assms(2) by (simp add: apply_action_def print_def)
next
  case (LinkPlugin mp base pd)
  with assms show ?thesis
    by (auto simp: settled_action_def apply_action_def link_plugin_cases Let_def)
next
  case (LinkWorkflow mp pn cdir cf)
  with assms show ?thesis
    by (auto simp: settled_action_def apply_action_def cmd_step_cases Let_def)
qed

section \<open>What the main loop does\<close>

lemma no_link_failure_prefix: "prefix ms ms' \<Longrightarrow> no_link_failure ms' \<Longrightarrow> no_link_failure ms"
  using set_mono_prefix [of ms ms'] by (auto simp: no_link_failure_def)

lemma no_failure_prefix: "prefix ms ms' \<Longrightarrow> no_failure ms' \<Longrightarrow> no_failure ms"
  using set_mono_prefix [of ms ms'] by (auto simp: no_failure_def)

lemma no_failure_link: "no_failure ms \<Longrightarrow> no_link_failure ms"
  by (auto simp: no_failure_def no_link_failure_def is_failure_def is_link_failure_def
      split: msg.splits)

lemma run_os: "os (fst (run iw s as)) = os (fst s)"
  by (induction as arbitrary: s) (simp_all add: action_os)

lemma run_raised_mono: "raised (fst (run iw s as)) = None \<Longrightarrow> raised (fst s) = None"
  using run_raised [of s iw as] by (cases "raised (fst s)") auto

lemma run_valid:
  "raised (fst (run iw s as)) = None \<Longrightarrow>
   valid_plugin_names (snd (run iw s as)) = valid_plugin_names (snd s) @ plugin_ids as \<and>
   valid_workflow_names (snd (run iw s as)) = valid_workflow_names (snd s) @ workflow_ids as"
proof (induction as arbitrary: s)
  case Nil
  then show ?case by simp
next
  case (Cons a as)
  let ?s1 = "apply_action iw s a"
  from Cons.prems have fin: "raised (fst (run iw ?s1 as)) = None" by simp
  from run_raised_mono [OF fin] have mid: "raised (fst ?s1) = None" .
  from action_raised_mono [OF mid] have st: "raised (fst s) = None" .
  show ?case
    using Cons.IH [OF fin] action_valid [OF st, of iw a]
      plugin_ids_Cons [of a as] workflow_ids_Cons [of a as]
    by simp
qed

lemma run_out_prefix: "prefix (out (fst s)) (out (fst (run iw s as)))"
proof (induction as arbitrary: s)
  case Nil
  then show ?case by simp
next
  case (Cons a as)
  from action_out_prefix [of s iw a] Cons.IH [of "apply_action iw s a"]
  show ?case by (simp add: prefix_order.trans)
qed

lemma run_dirs_kext:
  "kext (os (fst s)) (bridge (fst s)) (bridge (fst (run iw s as))) \<and>
   kext (os (fst s)) (workflows (fst s)) (workflows (fst (run iw s as)))"
proof (induction as arbitrary: s)
  case Nil
  then show ?case by (simp add: kext_refl)
next
  case (Cons a as)
  let ?s1 = "apply_action iw s a"
  note a = action_dirs_kext [of s iw a]
  note b = Cons.IH [of ?s1, unfolded action_os]
  show ?case
  proof
    show "kext (os (fst s)) (bridge (fst s)) (bridge (fst (run iw s (a # as))))"
      using kext_trans [OF conjunct1 [OF a] conjunct1 [OF b]] by simp
    show "kext (os (fst s)) (workflows (fst s)) (workflows (fst (run iw s (a # as))))"
      using kext_trans [OF conjunct2 [OF a] conjunct2 [OF b]] by simp
  qed
qed

lemma run_names:
  "names (bridge (fst (run iw s as))) \<subseteq> names (bridge (fst s)) \<union> set (plugin_ids as) \<and>
   names (workflows (fst (run iw s as))) \<subseteq> names (workflows (fst s)) \<union> set (workflow_ids as)"
proof (induction as arbitrary: s)
  case Nil
  then show ?case by simp
next
  case (Cons a as)
  have p: "set (plugin_ids (a # as)) = set (plugin_ids [a]) \<union> set (plugin_ids as)"
    using plugin_ids_Cons [of a as] by simp
  have q: "set (workflow_ids (a # as)) = set (workflow_ids [a]) \<union> set (workflow_ids as)"
    using workflow_ids_Cons [of a as] by simp
  from action_names [of iw s a] Cons.IH [of "apply_action iw s a"]
  show ?case unfolding p q by auto
qed

lemma run_distinct:
  "(distinct (map fst (bridge (fst s))) \<longrightarrow> distinct (map fst (bridge (fst (run iw s as))))) \<and>
   (distinct (map fst (workflows (fst s))) \<longrightarrow> distinct (map fst (workflows (fst (run iw s as)))))"
proof (induction as arbitrary: s)
  case Nil
  then show ?case by simp
next
  case (Cons a as)
  from action_distinct [of s iw a] Cons.IH [of "apply_action iw s a"]
  show ?case by simp
qed

lemma run_present:
  assumes "no_link_failure (out (fst (run iw s as)))" "\<forall>a \<in> set as. wf_action a"
    "raised (fst (run iw s as)) = None"
  shows "(\<forall>n \<in> set (plugin_ids as). present_in (os (fst s)) (bridge (fst (run iw s as))) n) \<and>
         (\<forall>n \<in> set (workflow_ids as). present_in (os (fst s)) (workflows (fst (run iw s as))) n)"
  using assms
proof (induction as arbitrary: s)
  case Nil
  then show ?case by simp
next
  case (Cons a as)
  let ?s1 = "apply_action iw s a"
  have fin: "no_link_failure (out (fst (run iw ?s1 as)))" using Cons.prems(1) by simp
  have rfin: "raised (fst (run iw ?s1 as)) = None" using Cons.prems(3) by simp
  have rmid: "raised (fst ?s1) = None" using run_raised_mono [OF rfin] .
  have mid: "no_link_failure (out (fst ?s1))"
    using no_link_failure_prefix [OF run_out_prefix fin] .
  have wa: "wf_action a" using Cons.prems(2) by simp
  note k = run_dirs_kext [of ?s1 iw as, unfolded action_os]
  note ap = action_present [OF mid wa rmid]
  have here: "(\<forall>n \<in> set (plugin_ids [a]). present_in (os (fst s)) (bridge (fst (run iw ?s1 as))) n) \<and>
         (\<forall>n \<in> set (workflow_ids [a]). present_in (os (fst s)) (workflows (fst (run iw ?s1 as))) n)"
  proof (intro conjI ballI)
    fix n assume "n \<in> set (plugin_ids [a])"
    with ap have "present_in (os (fst s)) (bridge (fst ?s1)) n" by simp
    from present_in_kext [OF conjunct1 [OF k] this]
    show "present_in (os (fst s)) (bridge (fst (run iw ?s1 as))) n" .
  next
    fix n assume "n \<in> set (workflow_ids [a])"
    with ap have "present_in (os (fst s)) (workflows (fst ?s1)) n" by simp
    from present_in_kext [OF conjunct2 [OF k] this]
    show "present_in (os (fst s)) (workflows (fst (run iw ?s1 as))) n" .
  qed
  have rest: "(\<forall>n \<in> set (plugin_ids as). present_in (os (fst s)) (bridge (fst (run iw ?s1 as))) n) \<and>
         (\<forall>n \<in> set (workflow_ids as). present_in (os (fst s)) (workflows (fst (run iw ?s1 as))) n)"
    using Cons.IH [OF fin _ rfin] Cons.prems(2) by (simp add: action_os)
  have p: "set (plugin_ids (a # as)) = set (plugin_ids [a]) \<union> set (plugin_ids as)"
    using plugin_ids_Cons [of a as] by simp
  have q: "set (workflow_ids (a # as)) = set (workflow_ids [a]) \<union> set (workflow_ids as)"
    using workflow_ids_Cons [of a as] by simp
  show ?case unfolding p q using here rest by auto
qed

lemma run_idle:
  assumes "raised (fst s) = None"
    "\<forall>n \<in> set (plugin_ids as). present_in (os (fst s)) (bridge (fst s)) n"
    "\<forall>n \<in> set (workflow_ids as). present_in (os (fst s)) (workflows (fst s)) n"
  shows "same_dirs (fst s) (fst (run iw s as)) \<and>
     raised (fst (run iw s as)) = None \<and>
     plugins_linked (snd (run iw s as)) = plugins_linked (snd s) \<and>
     workflows_linked (snd (run iw s as)) = workflows_linked (snd s) \<and>
     plugins_skipped (snd (run iw s as)) = plugins_skipped (snd s) + length (plugin_ids as) \<and>
     workflows_skipped (snd (run iw s as)) = workflows_skipped (snd s) + length (workflow_ids as)"
  using assms
proof (induction as arbitrary: s)
  case Nil
  then show ?case by (simp add: same_dirs_def)
next
  case (Cons a as)
  let ?s1 = "apply_action iw s a"
  have p: "plugin_ids (a # as) = plugin_ids [a] @ plugin_ids as"
    by (rule plugin_ids_Cons)
  have q: "workflow_ids (a # as) = workflow_ids [a] @ workflow_ids as"
    by (rule workflow_ids_Cons)
  have a1: "\<forall>n \<in> set (plugin_ids [a]). present_in (os (fst s)) (bridge (fst s)) n"
    and a2: "\<forall>n \<in> set (workflow_ids [a]). present_in (os (fst s)) (workflows (fst s)) n"
    and r1: "\<forall>n \<in> set (plugin_ids as). present_in (os (fst s)) (bridge (fst s)) n"
    and r2: "\<forall>n \<in> set (workflow_ids as). present_in (os (fst s)) (workflows (fst s)) n"
    using Cons.prems(2,3) unfolding p q by auto
  note st = action_idle [OF Cons.prems(1) a1 a2, of iw]
  from st have d: "bridge (fst ?s1) = bridge (fst s)" "workflows (fst ?s1) = workflows (fst s)"
    "raised (fst ?s1) = None"
    by (simp_all add: same_dirs_def)
  have ih: "same_dirs (fst ?s1) (fst (run iw ?s1 as)) \<and>
     raised (fst (run iw ?s1 as)) = None \<and>
     plugins_linked (snd (run iw ?s1 as)) = plugins_linked (snd ?s1) \<and>
     workflows_linked (snd (run iw ?s1 as)) = workflows_linked (snd ?s1) \<and>
     plugins_skipped (snd (run iw ?s1 as)) = plugins_skipped (snd ?s1) + length (plugin_ids as) \<and>
     workflows_skipped (snd (run iw ?s1 as)) = workflows_skipped (snd ?s1) + length (workflow_ids as)"
    using Cons.IH [of ?s1] r1 r2 d by (simp add: action_os)
  show ?case using st ih unfolding p q by (simp add: same_dirs_def)
qed


lemma run_settles:
  "raised (fst (run iw s as)) = None \<Longrightarrow> \<forall>a \<in> set as. settled_action iw (fst (run iw s as)) a"
proof (induction as arbitrary: s)
  case Nil
  then show ?case by simp
next
  case (Cons a as)
  let ?s1 = "apply_action iw s a"
  from Cons.prems have fin: "raised (fst (run iw ?s1 as)) = None" by simp
  from run_raised_mono [OF fin] have mid: "raised (fst ?s1) = None" .
  note k = run_dirs_kext [of ?s1 iw as]
  from settled_action_mono [OF action_settles [OF mid] run_os conjunct1 [OF k] conjunct2 [OF k]]
  have "settled_action iw (fst (run iw ?s1 as)) a" .
  with Cons.IH [OF fin] show ?case by simp
qed

lemma run_settled_idle:
  assumes "\<forall>a \<in> set as. settled_action iw (fst s) a" "raised (fst s) = None"
  shows "bridge (fst (run iw s as)) = bridge (fst s) \<and>
         workflows (fst (run iw s as)) = workflows (fst s) \<and>
         raised (fst (run iw s as)) = None \<and>
         plugins_linked (snd (run iw s as)) = plugins_linked (snd s) \<and>
         workflows_linked (snd (run iw s as)) = workflows_linked (snd s)"
  using assms
proof (induction as arbitrary: s)
  case Nil
  then show ?case by simp
next
  case (Cons a as)
  let ?s1 = "apply_action iw s a"
  have st: "bridge (fst ?s1) = bridge (fst s) \<and> workflows (fst ?s1) = workflows (fst s) \<and>
         raised (fst ?s1) = None \<and>
         plugins_linked (snd ?s1) = plugins_linked (snd s) \<and>
         workflows_linked (snd ?s1) = workflows_linked (snd s)"
    using action_settled_idle [of iw s a] Cons.prems by simp
  have "settled_action iw (fst ?s1) b" if "b \<in> set as" for b
  proof (rule settled_action_mono)
    show "settled_action iw (fst s) b" using Cons.prems that by simp
  qed (simp_all add: st action_os kext_refl)
  then have "\<forall>b \<in> set as. settled_action iw (fst ?s1) b" by blast
  from Cons.IH [OF this] st show ?case by simp
qed


section \<open>The cleanup loops\<close>

lemma rem_exact:
  "n \<in> names es \<Longrightarrow>
   rem iw e d es n = (case map_of es n of Some nd \<Rightarrow> removable iw e d n nd | None \<Rightarrow> False)"
  by (simp add: rem_def lookup_exact)

lemma rem_filter_fst:
  "n \<in> names es \<Longrightarrow> P n \<Longrightarrow> rem iw e d (filter (\<lambda>x. P (fst x)) es) n = rem iw e d es n"
  using rem_exact [of n es iw e d] rem_exact [of n "filter (\<lambda>x. P (fst x)) es" iw e d]
    names_filter_keep [of n es P]
  by (simp add: map_of_filter_fst)

lemma names_remove_entry_subset: "names (remove_entry e n es) \<subseteq> names es"
  by (auto simp: remove_entry_def names_def)

lemma gstep_cases:
  "gstep d stale mk iw s e =
     (if \<not> stale (fst e) then s
      else if rem iw (os (fst s)) d (get_dir d (fst s)) (fst e)
      then (set_dir d (remove_entry (os (fst s)) (fst e) (get_dir d (fst s)))
              (print (mk (fst e)) (fst s)),
            snd s + 1)
      else (print (MsgFailedRemove
                     (case lookup (os (fst s)) (get_dir d (fst s)) (fst e) of
                        None \<Rightarrow> missing (os (fst s)) (fst e)
                      | Some n \<Rightarrow> remove_error (os (fst s)) d (fst e) n))
              (print (mk (fst e)) (fst s)), snd s))"
proof (cases "lookup (os (fst s)) (get_dir d (fst s)) (fst e)")
  case None
  then have "at_dest (d, fst e) (print (mk (fst e)) (fst s)) = None"
    by (simp add: at_dest_def)
  from remove_link_missing [OF this] None show ?thesis
    by (simp add: gstep_def Let_def rem_def)
next
  case (Some nd)
  then have "at_dest (d, fst e) (print (mk (fst e)) (fst s)) = Some nd"
    by (simp add: at_dest_def)
  from remove_link_result [OF this] Some show ?thesis
    by (simp add: gstep_def Let_def rem_def)
qed

lemma gstep_os: "os (fst (gstep d stale mk iw s e)) = os (fst s)"
  by (simp add: gstep_cases)

lemma gstep_raised: "raised (fst (gstep d stale mk iw s e)) = raised (fst s)"
  by (simp add: gstep_cases)

lemma gfold_os: "os (fst (gfold d stale mk iw s snap)) = os (fst s)"
  by (induction snap arbitrary: s) (simp_all add: gstep_os)

lemma gfold_raised: "raised (fst (gfold d stale mk iw s snap)) = raised (fst s)"
  by (induction snap arbitrary: s) (simp_all add: gstep_raised)

lemma gstep_dir:
  assumes "fst e \<in> names (get_dir d (fst s))"
  shows "get_dir d (fst (gstep d stale mk iw s e)) =
     filter (\<lambda>x. \<not> (fst x = fst e \<and> stale (fst e) \<and> rem iw (os (fst s)) d (get_dir d (fst s)) (fst e)))
       (get_dir d (fst s))"
  using assms by (simp add: gstep_cases remove_entry_exact)

lemma gstep_rem_other:
  assumes "fst e \<in> names (get_dir d (fst s))" "n \<in> names (get_dir d (fst s))" "n \<noteq> fst e"
  shows "rem iw (os (fst s)) d (get_dir d (fst (gstep d stale mk iw s e))) n =
         rem iw (os (fst s)) d (get_dir d (fst s)) n"
  unfolding gstep_dir [OF assms(1)]
  using rem_filter_fst [OF assms(2), of "\<lambda>m. \<not> (m = fst e \<and> stale (fst e) \<and>
      rem iw (os (fst s)) d (get_dir d (fst s)) (fst e))" iw "os (fst s)" d] assms(3)
  by simp

lemma gfold_dir:
  assumes "distinct (map fst snap)" "fst ` set snap \<subseteq> names (get_dir d (fst s))"
  shows "get_dir d (fst (gfold d stale mk iw s snap)) =
     filter (\<lambda>x. \<not> (fst x \<in> fst ` set snap \<and> stale (fst x) \<and>
                     rem iw (os (fst s)) d (get_dir d (fst s)) (fst x)))
       (get_dir d (fst s))"
  using assms
proof (induction snap arbitrary: s)
  case Nil
  then show ?case by simp
next
  case (Cons e snap)
  let ?s1 = "gstep d stale mk iw s e"
  let ?es = "get_dir d (fst s)"
  let ?R = "rem iw (os (fst s)) d"
  have ein: "fst e \<in> names ?es" using Cons.prems(2) by simp
  have enot: "fst e \<notin> fst ` set snap" using Cons.prems(1) by simp
  have d1: "get_dir d (fst ?s1) =
      filter (\<lambda>x. \<not> (fst x = fst e \<and> stale (fst e) \<and> ?R ?es (fst e))) ?es"
    by (rule gstep_dir [OF ein])
  have sub: "fst ` set snap \<subseteq> names (get_dir d (fst ?s1))"
  proof
    fix n assume n: "n \<in> fst ` set snap"
    with Cons.prems(2) have "n \<in> names ?es" by auto
    moreover from n enot have "n \<noteq> fst e" by blast
    ultimately show "n \<in> names (get_dir d (fst ?s1))"
      unfolding d1 by (auto simp: names_def)
  qed
  have ih: "get_dir d (fst (gfold d stale mk iw ?s1 snap)) =
     filter (\<lambda>x. \<not> (fst x \<in> fst ` set snap \<and> stale (fst x) \<and>
                     ?R (get_dir d (fst ?s1)) (fst x)))
       (get_dir d (fst ?s1))"
    using Cons.IH [of ?s1, OF _ sub] Cons.prems(1) by (simp add: gstep_os)
  have "get_dir d (fst (gfold d stale mk iw s (e # snap))) =
      filter (\<lambda>x. \<not> (fst x \<in> fst ` set snap \<and> stale (fst x) \<and>
                     ?R (get_dir d (fst ?s1)) (fst x)))
       (filter (\<lambda>x. \<not> (fst x = fst e \<and> stale (fst e) \<and> ?R ?es (fst e))) ?es)"
    using ih d1 by simp
  also have "\<dots> = filter (\<lambda>x. \<not> (fst x \<in> fst ` set (e # snap) \<and> stale (fst x) \<and> ?R ?es (fst x))) ?es"
    unfolding filter_filter
  proof (rule filter_cong [OF refl])
    fix x assume x: "x \<in> set ?es"
    then have xin: "fst x \<in> names ?es" by (auto simp: names_def)
    show "(\<not> (fst x = fst e \<and> stale (fst e) \<and> ?R ?es (fst e)) \<and>
           \<not> (fst x \<in> fst ` set snap \<and> stale (fst x) \<and> ?R (get_dir d (fst ?s1)) (fst x)))
        = (\<not> (fst x \<in> fst ` set (e # snap) \<and> stale (fst x) \<and> ?R ?es (fst x)))"
    proof (cases "fst x = fst e")
      case True
      with enot show ?thesis by auto
    next
      case False
      from gstep_rem_other [OF ein xin False, where stale = stale and mk = mk and iw = iw]
      show ?thesis using False by auto
    qed
  qed
  finally show ?case .
qed

lemma gstep_other_dir: "d' \<noteq> d \<Longrightarrow> get_dir d' (fst (gstep d stale mk iw s e)) = get_dir d' (fst s)"
  by (simp add: gstep_cases get_other_set_dir)

lemma gfold_other_dir: "d' \<noteq> d \<Longrightarrow> get_dir d' (fst (gfold d stale mk iw s snap)) = get_dir d' (fst s)"
  by (induction snap arbitrary: s) (simp_all add: gstep_other_dir)

lemma gstep_out_prefix: "prefix (out (fst s)) (out (fst (gstep d stale mk iw s e)))"
  by (simp add: gstep_cases print_def)

lemma gfold_out_prefix: "prefix (out (fst s)) (out (fst (gfold d stale mk iw s snap)))"
proof (induction snap arbitrary: s)
  case Nil
  then show ?case by simp
next
  case (Cons e snap)
  from gstep_out_prefix [of s d stale mk iw e] Cons.IH [of "gstep d stale mk iw s e"]
  show ?case by (simp add: prefix_order.trans)
qed

lemma gstep_names_subset:
  "names (get_dir d (fst (gstep d stale mk iw s e))) \<subseteq> names (get_dir d (fst s))"
  by (simp add: gstep_cases names_remove_entry_subset)

lemma gfold_names_subset:
  "names (get_dir d (fst (gfold d stale mk iw s snap))) \<subseteq> names (get_dir d (fst s))"
proof (induction snap arbitrary: s)
  case Nil
  then show ?case by simp
next
  case (Cons e snap)
  from gstep_names_subset [of d stale mk iw s e] Cons.IH [of "gstep d stale mk iw s e"]
  show ?case by auto
qed

lemma gstep_clean_removed:
  assumes "no_failure (out (fst (gstep d stale mk iw s e)))" "stale (fst e)"
  shows "fst e \<notin> names (get_dir d (fst (gstep d stale mk iw s e)))"
proof (cases "rem iw (os (fst s)) d (get_dir d (fst s)) (fst e)")
  case True
  with assms(2) show ?thesis
    by (simp add: gstep_cases names_remove_entry)
next
  case False
  with assms show ?thesis
    by (simp add: gstep_cases print_def no_failure_def is_failure_def)
qed

lemma gfold_clean_removed:
  assumes "no_failure (out (fst (gfold d stale mk iw s snap)))" "e \<in> set snap" "stale (fst e)"
  shows "fst e \<notin> names (get_dir d (fst (gfold d stale mk iw s snap)))"
  using assms
proof (induction snap arbitrary: s)
  case Nil
  then show ?case by simp
next
  case (Cons x snap)
  let ?s1 = "gstep d stale mk iw s x"
  have fin: "no_failure (out (fst (gfold d stale mk iw ?s1 snap)))" using Cons.prems(1) by simp
  show ?case
  proof (cases "e = x")
    case True
    have "no_failure (out (fst ?s1))"
      using no_failure_prefix [OF gfold_out_prefix fin] .
    from gstep_clean_removed [OF this] True Cons.prems(3)
    have "fst e \<notin> names (get_dir d (fst ?s1))" by simp
    with gfold_names_subset [of d stale mk iw ?s1 snap] show ?thesis by auto
  next
    case False
    with Cons.prems(2) have "e \<in> set snap" by simp
    from Cons.IH [OF fin this Cons.prems(3)] show ?thesis by simp
  qed
qed

lemma gstep_idle:
  assumes "stale (fst e) \<longrightarrow> \<not> rem iw (os (fst s)) d (get_dir d (fst s)) (fst e)"
  shows "get_dir d (fst (gstep d stale mk iw s e)) = get_dir d (fst s) \<and>
         snd (gstep d stale mk iw s e) = snd s"
  using assms by (simp add: gstep_cases)

lemma gfold_idle:
  assumes "\<forall>e \<in> set snap. stale (fst e) \<longrightarrow> \<not> rem iw (os (fst s)) d (get_dir d (fst s)) (fst e)"
  shows "get_dir d (fst (gfold d stale mk iw s snap)) = get_dir d (fst s) \<and>
         snd (gfold d stale mk iw s snap) = snd s"
  using assms
proof (induction snap arbitrary: s)
  case Nil
  then show ?case by simp
next
  case (Cons x snap)
  let ?s1 = "gstep d stale mk iw s x"
  have st: "get_dir d (fst ?s1) = get_dir d (fst s) \<and> snd ?s1 = snd s"
    using gstep_idle [of stale x iw s d mk] Cons.prems by simp
  then have "\<forall>e \<in> set snap. stale (fst e) \<longrightarrow> \<not> rem iw (os (fst ?s1)) d (get_dir d (fst ?s1)) (fst e)"
    using Cons.prems by (simp add: gstep_os)
  from Cons.IH [OF this] st show ?case by simp
qed



text \<open>
  What a cleanup pass over the whole directory leaves cannot be removed by another.
\<close>

lemma gfold_settled:
  assumes "names (get_dir d (fst s)) \<subseteq> fst ` set snap" "distinct (map fst snap)"
    "fst ` set snap \<subseteq> names (get_dir d (fst s))"
    and "e \<in> set (get_dir d (fst (gfold d stale mk iw s snap)))" "stale (fst e)"
  shows "\<not> rem iw (os (fst s)) d (get_dir d (fst (gfold d stale mk iw s snap))) (fst e)"
proof -
  let ?es = "get_dir d (fst s)"
  let ?P = "\<lambda>n. \<not> (n \<in> fst ` set snap \<and> stale n \<and> rem iw (os (fst s)) d ?es n)"
  have f: "get_dir d (fst (gfold d stale mk iw s snap)) = filter (\<lambda>x. ?P (fst x)) ?es"
    by (rule gfold_dir [OF assms(2,3)])
  from assms(4) have mem: "e \<in> set ?es" and keep: "?P (fst e)"
    unfolding f by simp_all
  from mem have ein: "fst e \<in> names ?es" by (auto simp: names_def)
  with assms(1) have "fst e \<in> fst ` set snap" by auto
  with keep assms(5) have "\<not> rem iw (os (fst s)) d ?es (fst e)" by simp
  then show ?thesis unfolding f using rem_filter_fst [OF ein, of ?P iw "os (fst s)" d] keep by simp
qed

lemma cleanup_plugin_step_gstep:
  "cleanup_plugin_step iw s e =
     (let r = gstep BridgePlugins (not_valid (valid_plugin_names (snd s))) MsgRemovePlugin iw
                (fst s, plugins_removed (snd s)) e
      in (fst r, (snd s)\<lparr>plugins_removed := snd r\<rparr>))"
  by (simp add: cleanup_plugin_step_def gstep_def Let_def not_valid_def)

lemma cleanup_workflow_step_gstep:
  "cleanup_workflow_step iw s e =
     (let r = gstep GlobalWorkflows (cb_stale (valid_workflow_names (snd s)))
                MsgRemoveWorkflow iw (fst s, workflows_removed (snd s)) e
      in (fst r, (snd s)\<lparr>workflows_removed := snd r\<rparr>))"
  by (simp add: cleanup_workflow_step_def gstep_def Let_def cb_stale_def)

lemma cleanup_plugin_fold:
  "foldl (cleanup_plugin_step iw) (w, l) snap =
     (let r = gfold BridgePlugins (not_valid (valid_plugin_names l)) MsgRemovePlugin iw
                (w, plugins_removed l) snap
      in (fst r, l\<lparr>plugins_removed := snd r\<rparr>))"
proof (induction snap arbitrary: w l)
  case Nil
  then show ?case by simp
next
  case (Cons e snap)
  let ?r = "gstep BridgePlugins (not_valid (valid_plugin_names l)) MsgRemovePlugin iw
              (w, plugins_removed l) e"
  have st: "cleanup_plugin_step iw (w, l) e = (fst ?r, l\<lparr>plugins_removed := snd ?r\<rparr>)"
    by (simp add: cleanup_plugin_step_gstep Let_def)
  have "foldl (cleanup_plugin_step iw) (w, l) (e # snap) =
        foldl (cleanup_plugin_step iw) (fst ?r, l\<lparr>plugins_removed := snd ?r\<rparr>) snap"
    by (simp only: foldl_Cons st)
  then show ?case
    by (simp add: Cons.IH [of "fst ?r" "l\<lparr>plugins_removed := snd ?r\<rparr>"] Let_def)
qed

lemma cleanup_workflow_fold:
  "foldl (cleanup_workflow_step iw) (w, l) snap =
     (let r = gfold GlobalWorkflows (cb_stale (valid_workflow_names l))
                MsgRemoveWorkflow iw (w, workflows_removed l) snap
      in (fst r, l\<lparr>workflows_removed := snd r\<rparr>))"
proof (induction snap arbitrary: w l)
  case Nil
  then show ?case by simp
next
  case (Cons e snap)
  let ?r = "gstep GlobalWorkflows (cb_stale (valid_workflow_names l))
              MsgRemoveWorkflow iw (w, workflows_removed l) e"
  have st: "cleanup_workflow_step iw (w, l) e = (fst ?r, l\<lparr>workflows_removed := snd ?r\<rparr>)"
    by (simp add: cleanup_workflow_step_gstep Let_def)
  have "foldl (cleanup_workflow_step iw) (w, l) (e # snap) =
        foldl (cleanup_workflow_step iw) (fst ?r, l\<lparr>workflows_removed := snd ?r\<rparr>) snap"
    by (simp only: foldl_Cons st)
  then show ?case
    by (simp add: Cons.IH [of "fst ?r" "l\<lparr>workflows_removed := snd ?r\<rparr>"] Let_def)
qed

section \<open>The three stages of a run\<close>

lemma stage1_os: "os (fst (stage1 iw mp ms w)) = os w"
  by (simp add: stage1_def run_os)

lemma stage2_os: "os (fst (stage2 iw mp ms w)) = os w"
  by (simp add: stage2_def gfold_os stage1_os)

lemma stage3_os: "os (fst (stage3 iw mp ms w)) = os w"
  by (simp add: stage3_def gfold_os stage2_os)

lemma stage2_raised: "raised (fst (stage2 iw mp ms w)) = raised (fst (stage1 iw mp ms w))"
  by (simp add: stage2_def gfold_raised)

lemma stage3_raised: "raised (fst (stage3 iw mp ms w)) = raised (fst (stage1 iw mp ms w))"
  by (simp add: stage3_def gfold_raised stage2_raised)

lemma stage1_valid:
  assumes "raised (fst (stage1 iw mp ms w)) = None"
  shows "valid_plugin_names (snd (stage1 iw mp ms w)) = plugin_ids (scan mp ms) \<and>
         valid_workflow_names (snd (stage1 iw mp ms w)) = workflow_ids (scan mp ms)"
  using run_valid [of iw "(w, init_locals)" "scan mp ms"] assms
  by (simp add: stage1_def init_locals_def)

lemma sync_loops_raised:
  assumes "raised (fst (stage1 iw mp ms w)) \<noteq> None"
  shows "sync_loops iw mp ms w = stage1 iw mp ms w"
proof -
  have a: "foldl (mp_step iw mp) (w, init_locals) (sorted_entries ms) = stage1 iw mp ms w"
    by (simp add: main_loop_scan stage1_def)
  show ?thesis
    unfolding sync_loops_def a Let_def
    using assms by (simp add: cleanup_plugins_def cleanup_workflows_def)
qed

lemma sync_loops_stages:
  assumes "raised (fst (stage1 iw mp ms w)) = None"
  shows "sync_loops iw mp ms w =
     (let l3 = (snd (stage1 iw mp ms w))\<lparr>plugins_removed := snd (stage2 iw mp ms w),
                                          workflows_removed := snd (stage3 iw mp ms w)\<rparr>
      in (print (msg_done l3) (fst (stage3 iw mp ms w)), l3))"
proof -
  let ?s1 = "stage1 iw mp ms w"
  note v = stage1_valid [OF assms]
  have a: "foldl (mp_step iw mp) (w, init_locals) (sorted_entries ms) = ?s1"
    by (simp add: main_loop_scan stage1_def)
  have b: "cleanup_plugins iw ?s1 = (fst (stage2 iw mp ms w), (snd ?s1)\<lparr>plugins_removed := snd (stage2 iw mp ms w)\<rparr>)"
    unfolding cleanup_plugins_def cleanup_plugin_fold
    using assms v by (simp add: Let_def stage2_def)
  have r2: "raised (fst (stage2 iw mp ms w)) = None" using assms by (simp add: stage2_raised)
  have r3: "raised (fst (stage3 iw mp ms w)) = None" using assms by (simp add: stage3_raised)
  have c: "cleanup_workflows iw (fst (stage2 iw mp ms w), (snd ?s1)\<lparr>plugins_removed := snd (stage2 iw mp ms w)\<rparr>)
         = (fst (stage3 iw mp ms w),
            (snd ?s1)\<lparr>plugins_removed := snd (stage2 iw mp ms w), workflows_removed := snd (stage3 iw mp ms w)\<rparr>)"
    unfolding cleanup_workflows_def cleanup_workflow_fold
    using r2 v by (simp add: Let_def stage3_def)
  show ?thesis
    unfolding sync_loops_def a Let_def b c using r3 by simp
qed

lemma stage_dirs:
  "bridge (fst (stage3 iw mp ms w)) = bridge (fst (stage2 iw mp ms w)) \<and>
   workflows (fst (stage2 iw mp ms w)) = workflows (fst (stage1 iw mp ms w))"
  unfolding bridge_get_dir workflows_get_dir stage3_def stage2_def
  by (simp_all add: gfold_other_dir)

lemma stage_out_prefix:
  "prefix (out w) (out (fst (stage1 iw mp ms w))) \<and>
   prefix (out (fst (stage1 iw mp ms w))) (out (fst (stage2 iw mp ms w))) \<and>
   prefix (out (fst (stage2 iw mp ms w))) (out (fst (stage3 iw mp ms w)))"
proof (intro conjI)
  show "prefix (out w) (out (fst (stage1 iw mp ms w)))"
    using run_out_prefix [of "(w, init_locals)" iw "scan mp ms"] by (simp add: stage1_def)
  show "prefix (out (fst (stage1 iw mp ms w))) (out (fst (stage2 iw mp ms w)))"
    unfolding stage2_def
    using gfold_out_prefix [of "(fst (stage1 iw mp ms w), 0)"] by simp
  show "prefix (out (fst (stage2 iw mp ms w))) (out (fst (stage3 iw mp ms w)))"
    unfolding stage3_def
    using gfold_out_prefix [of "(fst (stage2 iw mp ms w), 0)"] by simp
qed


lemma stage1_distinct:
  "(distinct (map fst (bridge w)) \<longrightarrow> distinct (map fst (bridge (fst (stage1 iw mp ms w))))) \<and>
   (distinct (map fst (workflows w)) \<longrightarrow> distinct (map fst (workflows (fst (stage1 iw mp ms w)))))"
  using run_distinct [of "(w, init_locals)" iw "scan mp ms"] by (simp add: stage1_def)

lemma stage1_names:
  "names (bridge (fst (stage1 iw mp ms w))) \<subseteq> names (bridge w) \<union> set (plugin_ids (scan mp ms)) \<and>
   names (workflows (fst (stage1 iw mp ms w))) \<subseteq> names (workflows w) \<union> set (workflow_ids (scan mp ms))"
  using run_names [of iw "(w, init_locals)" "scan mp ms"] by (simp add: stage1_def)

lemma distinct_sorted_entries:
  "distinct (map fst es) \<Longrightarrow> distinct (map fst (sorted_entries es))"
  by (simp add: sorted_entries_def distinct_map)

lemma names_sorted_entries: "fst ` set (sorted_entries es) = names es"
  by (simp add: names_def)

text \<open>The cleanup of a directory whose entries have different names.\<close>

lemma cleanup_dir:
  assumes "distinct (map fst (get_dir d w))"
  shows "get_dir d (fst (gfold d stale mk iw (w, k) (sorted_entries (get_dir d w)))) =
     filter (\<lambda>x. \<not> (stale (fst x) \<and> rem iw (os w) d (get_dir d w) (fst x))) (get_dir d w)"
proof -
  have "get_dir d (fst (gfold d stale mk iw (w, k) (sorted_entries (get_dir d w)))) =
     filter (\<lambda>x. \<not> (fst x \<in> fst ` set (sorted_entries (get_dir d w)) \<and> stale (fst x) \<and>
                     rem iw (os w) d (get_dir d w) (fst x))) (get_dir d w)"
    using gfold_dir [of "sorted_entries (get_dir d w)" d "(w, k)" stale mk iw,
        OF distinct_sorted_entries [OF assms]]
    by (simp add: names_def)
  also have "\<dots> = filter (\<lambda>x. \<not> (stale (fst x) \<and> rem iw (os w) d (get_dir d w) (fst x))) (get_dir d w)"
    by (rule filter_cong) (auto simp: names_def)
  finally show ?thesis .
qed

lemma stage2_bridge:
  assumes "distinct (map fst (bridge w))"
  shows "bridge (fst (stage2 iw mp ms w)) =
     filter (\<lambda>x. \<not> (not_valid (plugin_ids (scan mp ms)) (fst x)
                     \<and> rem iw (os w) BridgePlugins (bridge (fst (stage1 iw mp ms w))) (fst x)))
       (bridge (fst (stage1 iw mp ms w)))"
proof -
  let ?s1 = "stage1 iw mp ms w"
  have d: "distinct (map fst (get_dir BridgePlugins (fst ?s1)))"
    using stage1_distinct [of w iw mp ms] assms by (simp add: bridge_get_dir)
  from cleanup_dir [OF d, of "not_valid (plugin_ids (scan mp ms))" MsgRemovePlugin iw 0]
  show ?thesis
    by (simp add: stage2_def bridge_get_dir stage1_os)
qed


lemma mkdir_p_Inr: "mkdir_p r = Inr es \<Longrightarrow> es = listing_of r \<and> (r = Absent \<or> root_is_dir r)"
  by (cases r) (simp_all add: mkdir_p_def listing_of_def root_is_dir_def)

lemma root_iterdir_Inr: "root_iterdir r = Inr es \<Longrightarrow> es = listing_of r \<and> root_is_dir r"
  by (cases r) (simp_all add: root_iterdir_def listing_of_def root_is_dir_def)

lemma listing_of_Directory: "listing_of (Directory es) = es"
  by (simp add: listing_of_def)

text \<open>\<^verbatim>\<open>cmd_sync\<close> when it reaches the loops.\<close>

lemma cmd_sync_runs:
  assumes "root_is_dir (marketplace f)"
    "bridge_plugins f = Absent \<or> root_is_dir (bridge_plugins f)"
    "global_workflows f = Absent \<or> root_is_dir (global_workflows f)"
  shows "cmd_sync f =
          (case raised (fst (loops_of f)) of Some e \<Rightarrow> Crashed e | None \<Rightarrow> Done (snd (loops_of f)),
           f\<lparr>bridge_plugins := Directory (bridge (fst (loops_of f))),
             global_workflows := Directory (workflows (fst (loops_of f)))\<rparr>,
           out (fst (loops_of f)))"
proof -
  from assms(1) obtain ms where ms: "marketplace f = Directory ms"
    by (cases "marketplace f") (simp_all add: root_is_dir_def)
  have b: "mkdir_p (bridge_plugins f) = Inr (listing_of (bridge_plugins f))"
    using assms(2) by (cases "bridge_plugins f") (simp_all add: mkdir_p_def listing_of_def root_is_dir_def)
  have g: "mkdir_p (global_workflows f) = Inr (listing_of (global_workflows f))"
    using assms(3) by (cases "global_workflows f") (simp_all add: mkdir_p_def listing_of_def root_is_dir_def)
  have lo: "sync_loops (platform_system f = ''Windows'') (get_claude_marketplace (home f)) ms
              \<lparr>bridge = listing_of (bridge_plugins f), workflows = listing_of (global_workflows f),
               out = [MsgHeader], raised = None, os = environment f\<rparr> = loops_of f"
    using ms by (simp add: loops_of_def is_windows_of_def start_world_def listing_of_Directory)
  show ?thesis
    using ms b g
    by (simp add: cmd_sync_def Let_def root_exists_def root_iterdir_def lo split: option.splits)
qed

lemma cmd_sync_Done:
  assumes "fst (cmd_sync f) = Done l"
  shows "l = snd (loops_of f) \<and>
         raised (fst (loops_of f)) = None \<and>
         fst (snd (cmd_sync f)) =
           f\<lparr>bridge_plugins := Directory (bridge (fst (loops_of f))),
             global_workflows := Directory (workflows (fst (loops_of f)))\<rparr> \<and>
         snd (snd (cmd_sync f)) = out (fst (loops_of f)) \<and>
         root_is_dir (marketplace f) \<and>
         (bridge_plugins f = Absent \<or> root_is_dir (bridge_plugins f)) \<and>
         (global_workflows f = Absent \<or> root_is_dir (global_workflows f))"
proof -
  from assms have ex: "root_exists (marketplace f)"
    by (auto simp: cmd_sync_def split: if_splits)
  from assms ex obtain b where b: "mkdir_p (bridge_plugins f) = Inr b"
    by (cases "mkdir_p (bridge_plugins f)") (auto simp: cmd_sync_def)
  from assms ex b obtain g where g: "mkdir_p (global_workflows f) = Inr g"
    by (cases "mkdir_p (global_workflows f)") (auto simp: cmd_sync_def)
  from assms ex b g obtain ms where ms: "root_iterdir (marketplace f) = Inr ms"
    by (cases "root_iterdir (marketplace f)") (auto simp: cmd_sync_def)
  note B = mkdir_p_Inr [OF b] and G = mkdir_p_Inr [OF g] and M = root_iterdir_Inr [OF ms]
  from cmd_sync_runs [of f] B G M
  have c: "cmd_sync f =
          (case raised (fst (loops_of f)) of Some e \<Rightarrow> Crashed e | None \<Rightarrow> Done (snd (loops_of f)),
           f\<lparr>bridge_plugins := Directory (bridge (fst (loops_of f))),
             global_workflows := Directory (workflows (fst (loops_of f)))\<rparr>,
           out (fst (loops_of f)))"
    by simp
  with assms have "raised (fst (loops_of f)) = None \<and> l = snd (loops_of f)"
    by (cases "raised (fst (loops_of f))") simp_all
  with c B G M show ?thesis by simp
qed

text \<open>The loops in terms of the stages, started as \<^verbatim>\<open>cmd_sync\<close> starts them.\<close>

lemma loops_of_raised:
  "raised (fst (loops_of f)) =
     raised (fst (stage1 (is_windows_of f) (get_claude_marketplace (home f))
                    (listing_of (marketplace f)) (start_world f)))"
proof (cases "raised (fst (stage1 (is_windows_of f) (get_claude_marketplace (home f))
                    (listing_of (marketplace f)) (start_world f)))")
  case None
  from sync_loops_stages [OF this] None show ?thesis
    by (simp add: loops_of_def Let_def stage3_raised)
next
  case (Some e)
  then have "raised (fst (stage1 (is_windows_of f) (get_claude_marketplace (home f))
                    (listing_of (marketplace f)) (start_world f))) \<noteq> None" by simp
  from sync_loops_raised [OF this] show ?thesis by (simp add: loops_of_def)
qed

section \<open>The link primitives never raise\<close>







section \<open>What a whole run leaves\<close>

lemma loops_os: "os (fst (sync_loops iw mp ms w)) = os w"
proof (cases "raised (fst (stage1 iw mp ms w)) = None")
  case True
  from sync_loops_stages [OF this] show ?thesis by (simp add: Let_def stage3_os)
next
  case False
  from sync_loops_raised [OF this] show ?thesis by (simp add: stage1_os)
qed

lemma loops_raised: "raised (fst (sync_loops iw mp ms w)) = raised (fst (stage1 iw mp ms w))"
proof (cases "raised (fst (stage1 iw mp ms w)) = None")
  case True
  from sync_loops_stages [OF this] True show ?thesis by (simp add: Let_def stage3_raised)
next
  case False
  from sync_loops_raised [OF this] show ?thesis by simp
qed


lemma loops_out:
  assumes "raised (fst (stage1 iw mp ms w)) = None"
  shows "prefix (out (fst (stage3 iw mp ms w))) (out (fst (sync_loops iw mp ms w)))"
  using sync_loops_stages [OF assms] by (simp add: Let_def)

text \<open>The directories after a run that raised nothing.\<close>

lemma loops_bridge:
  assumes "raised (fst (stage1 iw mp ms w)) = None" "distinct (map fst (bridge w))"
  shows "bridge (fst (sync_loops iw mp ms w)) =
     filter (\<lambda>x. \<not> (not_valid (plugin_ids (scan mp ms)) (fst x)
                     \<and> rem iw (os w) BridgePlugins (bridge (fst (stage1 iw mp ms w))) (fst x)))
       (bridge (fst (stage1 iw mp ms w)))"
  using sync_loops_stages [OF assms(1)] stage2_bridge [OF assms(2), of iw mp ms]
    stage_dirs [of iw mp ms w]
  by (simp add: Let_def print_def)



section \<open>Convergence\<close>

lemma plugin_ids_scan_plugin:
  "plugin_ids (scan_plugin mp base pd) =
     (if is_dir (Some (snd pd)) \<and> is_plugin_dir (fst pd) (snd pd)
      then [canonical_id (mp, fst pd)] else [])"
  by (simp add: scan_plugin_def Let_def plugin_ids_workflows canonical_id_def)

lemma set_plugin_ids_scan_marketplace:
  "set (plugin_ids (scan_marketplace mpath md)) =
     (if is_dir (Some (snd md)) \<and> \<not> startswith (fst md) ''.''
      then (\<lambda>p. canonical_id (fst md, fst p)) `
             {p \<in> set (plugin_base_listing (snd md)). is_dir (Some (snd p)) \<and> is_plugin_dir (fst p) (snd p)}
      else {})"
  by (auto simp: scan_marketplace_def Let_def plugin_ids_concat plugin_ids_scan_plugin
      plugin_base_listing_def split: if_splits)

lemma set_plugin_ids_scan:
  "set (plugin_ids (scan mpath ms)) = canonical_id ` set (plugin_sources ms)"
  unfolding scan_def plugin_ids_concat plugin_sources_def
  by (auto simp: set_plugin_ids_scan_marketplace split: if_splits)

lemma loops_convergence:
  assumes nf: "no_failure (out (fst (sync_loops iw mp ms w)))"
    and r: "raised (fst (stage1 iw mp ms w)) = None"
    and d: "distinct (map fst (bridge w))"
    and k: "key_faithful (os w) (plugin_ids (scan mp ms)) (bridge w)"
  shows "names (bridge (fst (sync_loops iw mp ms w))) = set (plugin_ids (scan mp ms))"
proof -
  let ?V = "set (plugin_ids (scan mp ms))"
  let ?s1 = "stage1 iw mp ms w" and ?s2 = "stage2 iw mp ms w" and ?s3 = "stage3 iw mp ms w"
  let ?es1 = "bridge (fst ?s1)"
  define P where "P = (\<lambda>m. \<not> (not_valid (plugin_ids (scan mp ms)) m
                               \<and> rem iw (os w) BridgePlugins ?es1 m))"
  have fin: "bridge (fst (sync_loops iw mp ms w)) = filter (\<lambda>x. P (fst x)) ?es1"
    unfolding P_def by (rule loops_bridge [OF r d])
  have fin2: "bridge (fst (sync_loops iw mp ms w)) = get_dir BridgePlugins (fst ?s2)"
    using sync_loops_stages [OF r] stage_dirs [of iw mp ms w]
    by (simp add: Let_def print_def bridge_get_dir)
  have c3: "no_failure (out (fst ?s3))" using no_failure_prefix [OF loops_out [OF r] nf] .
  have c2: "no_failure (out (fst ?s2))"
    using no_failure_prefix [OF conjunct2 [OF conjunct2 [OF stage_out_prefix]] c3] .
  have c1: "no_failure (out (fst ?s1))"
    using no_failure_prefix [OF conjunct1 [OF conjunct2 [OF stage_out_prefix]] c2] .
  have pres: "\<forall>n \<in> ?V. present_in (os w) ?es1 n"
    using run_present [OF _ scan_wf, of iw "(w, init_locals)" mp ms] no_failure_link [OF c1] r
    by (simp add: stage1_def)
  have nm: "names ?es1 \<subseteq> names (bridge w) \<union> ?V"
    using stage1_names [of iw mp ms w] by simp
  have sub: "?V \<subseteq> names (bridge (fst (sync_loops iw mp ms w)))"
  proof
    fix n assume n: "n \<in> ?V"
    with pres have "lookup (os w) ?es1 n \<noteq> None" by (simp add: present_in_lookup)
    then obtain m where m: "m \<in> names ?es1" "name_key (os w) m = name_key (os w) n"
      by (auto simp: lookup_None)
    with nm have "m \<in> names (bridge w) \<union> ?V" by auto
    with k n m(2) have "m = n" unfolding key_faithful_def by blast
    with m(1) obtain x where x: "x \<in> set ?es1" "fst x = n" by (auto simp: names_def)
    have "P n" using n by (simp add: P_def not_valid_def)
    with x have "x \<in> set (filter (\<lambda>x. P (fst x)) ?es1)" by simp
    with x(2) show "n \<in> names (bridge (fst (sync_loops iw mp ms w)))"
      unfolding fin by (auto simp: names_def)
  qed
  have sup: "names (bridge (fst (sync_loops iw mp ms w))) \<subseteq> ?V"
  proof
    fix n assume n: "n \<in> names (bridge (fst (sync_loops iw mp ms w)))"
    show "n \<in> ?V"
    proof (rule ccontr)
      assume nv: "n \<notin> ?V"
      from n obtain x where x: "x \<in> set ?es1" "fst x = n"
        unfolding fin by (auto simp: names_def)
      have "fst x \<notin> names (get_dir BridgePlugins (fst ?s2))"
        unfolding stage2_def
      proof (rule gfold_clean_removed)
        show "no_failure (out (fst (gfold BridgePlugins (not_valid (plugin_ids (scan mp ms)))
                 MsgRemovePlugin iw (fst ?s1, 0) (sorted_entries (bridge (fst ?s1))))))"
          using c2 by (simp add: stage2_def)
        show "x \<in> set (sorted_entries (bridge (fst ?s1)))" using x by simp
        show "not_valid (plugin_ids (scan mp ms)) (fst x)" using x nv by (simp add: not_valid_def)
      qed
      with n x fin2 show False by simp
    qed
  qed
  from sub sup show ?thesis by auto
qed

text \<open>
  Claim C2 as stated fails on a file system that ignores case: after the marketplace
  \<^verbatim>\<open>mkt\<close> was renamed to \<^verbatim>\<open>Mkt\<close> the sync finds \<^verbatim>\<open>Mkt__demo\<close> present through the
  old link \<^verbatim>\<open>mkt__demo\<close>, skips it, and then removes the old link as stale.  No
  creation or removal fails, and the bridge directory is left empty although the
  marketplace has one plugin.
\<close>

theorem sync_convergence_counterexample:
  "fst (cmd_sync fs_renamed) =
     Done \<lparr>valid_plugin_names = [''Mkt__demo''], valid_workflow_names = [],
       plugins_linked = 0, plugins_skipped = 1, workflows_linked = 0, workflows_skipped = 0,
       plugins_removed = 1, workflows_removed = 0\<rparr> \<and>
   no_failure (snd (snd (cmd_sync fs_renamed))) \<and>
   listing_of (bridge_plugins (fst (snd (cmd_sync fs_renamed)))) = [] \<and>
   map canonical_id (plugin_sources (listing_of (marketplace fs_renamed))) = [''Mkt__demo'']"
  by code_simp

text \<open>
  Claim C2, as the code has it.  Whatever the marketplace and the destinations are when
  \<^verbatim>\<open>sync\<close> starts (so after any sequence of additions and removals of plugins and
  workflows): when each canonical identifier is the only name, among the identifiers and
  the names in the bridge-plugins directory, that addresses its entry (as it is on a
  case-sensitive file system), a sync that runs to the end and reports no failed link
  creation or removal leaves a bridge-plugins directory whose entry names are exactly the
  canonical identifiers \<open>marketplace__plugin\<close> of the plugin sources of the marketplace.
  The directory lists each of its names once.
\<close>

theorem sync_convergence:
  assumes "fst (cmd_sync f) = Done l" "no_failure (snd (snd (cmd_sync f)))"
    and "key_faithful (environment f) (plugin_candidates f) (listing_of (bridge_plugins f))"
    and "distinct (map fst (listing_of (bridge_plugins f)))"
  shows "root_is_dir (bridge_plugins (fst (snd (cmd_sync f)))) \<and>
         names (listing_of (bridge_plugins (fst (snd (cmd_sync f))))) =
           canonical_id ` set (plugin_sources (listing_of (marketplace f)))"
proof -
  note D = cmd_sync_Done [OF assms(1)]
  from D assms(2) have nf: "no_failure (out (fst (loops_of f)))" by simp
  from D have r: "raised (fst (stage1 (is_windows_of f) (get_claude_marketplace (home f))
                    (listing_of (marketplace f)) (start_world f))) = None"
    by (simp add: loops_of_raised)
  have d: "distinct (map fst (bridge (start_world f)))"
    using assms(4) by (simp add: start_world_def)
  have k: "key_faithful (os (start_world f))
             (plugin_ids (scan (get_claude_marketplace (home f)) (listing_of (marketplace f))))
             (bridge (start_world f))"
    using assms(3) by (simp add: start_world_def plugin_candidates_def)
  have "names (bridge (fst (loops_of f))) =
      set (plugin_ids (scan (get_claude_marketplace (home f)) (listing_of (marketplace f))))"
    unfolding loops_of_def
    by (rule loops_convergence [OF nf [unfolded loops_of_def] r d k])
  with D show ?thesis
    by (simp add: set_plugin_ids_scan listing_of_def root_is_dir_def)
qed

lemma fs_converge_run:
  "fst (cmd_sync fs_converge) =
     Done \<lparr>valid_plugin_names = [''mkt1__demo''], valid_workflow_names = [],
       plugins_linked = 1, plugins_skipped = 0, workflows_linked = 0, workflows_skipped = 0,
       plugins_removed = 2, workflows_removed = 0\<rparr>"
  by code_simp

lemma fs_converge_clean: "no_failure (snd (snd (cmd_sync fs_converge)))"
  by code_simp

lemma key_faithful_identity: "name_key e = (\<lambda>n. n) \<Longrightarrow> key_faithful e ids es"
  by (simp add: key_faithful_def)

theorem sync_convergence_witness:
  "(\<exists>l. fst (cmd_sync fs_converge) = Done l) \<and> no_failure (snd (snd (cmd_sync fs_converge))) \<and>
   key_faithful (environment fs_converge) (plugin_candidates fs_converge)
     (listing_of (bridge_plugins fs_converge)) \<and>
   distinct (map fst (listing_of (bridge_plugins fs_converge))) \<and>
   root_is_dir (bridge_plugins (fst (snd (cmd_sync fs_converge)))) \<and>
   names (listing_of (bridge_plugins (fst (snd (cmd_sync fs_converge))))) = {''mkt1__demo''}"
proof -
  have c: "canonical_id ` set (plugin_sources (listing_of (marketplace fs_converge))) = {''mkt1__demo''}"
    by code_simp
  have k: "key_faithful (environment fs_converge) (plugin_candidates fs_converge)
     (listing_of (bridge_plugins fs_converge))"
    by (rule key_faithful_identity) (simp add: fs_converge_def posix_def)
  have d: "distinct (map fst (listing_of (bridge_plugins fs_converge)))"
    by (simp add: fs_converge_def listing_of_def)
  from sync_convergence [OF fs_converge_run fs_converge_clean k d] fs_converge_run
    fs_converge_clean c k d
  show ?thesis by simp
qed

section \<open>Cleanup of the workflows directory\<close>












end
